theory Spec2Isabelle
  imports Main "HOL-Library.Signed_Division" "HOL-Library.AList"
begin

section \<open>Go primitives used by the cue parser\<close>

text \<open>
  Go strings are byte sequences; a \<^typ>\<open>string\<close> here is the list of the bytes of the Go
  string, so a character outside ASCII is its UTF-8 encoding (two to four bytes).
  A \<open>time.Duration\<close> is a signed 64-bit count of nanoseconds and Go's \<open>int\<close> is 64 bits
  wide on the platforms the program is built for; both are modelled as \<^typ>\<open>int\<close> with
  the wrap-around written out.
\<close>

definition wrap64 :: "int \<Rightarrow> int" where
  "wrap64 x = (x + 2 ^ 63) mod 2 ^ 64 - 2 ^ 63"

definition maxInt64 :: int where
  "maxInt64 = 2 ^ 63 - 1"

definition minInt64 :: int where
  "minInt64 = - (2 ^ 63)"

definition Millisecond :: int where
  "Millisecond = 1000000"

datatype NumError = ErrSyntax | ErrRange

definition isDigit :: "char \<Rightarrow> bool" where
  "isDigit c = (c \<in> set ''0123456789'')"

definition digitVal :: "char \<Rightarrow> int" where
  "digitVal c = int (of_char c) - 48"

text \<open>The value of a run of decimal digits, most significant first.\<close>

fun decimal :: "int \<Rightarrow> string \<Rightarrow> int" where
  "decimal acc [] = acc"
| "decimal acc (c # cs) = decimal (acc * 10 + digitVal c) cs"

text \<open>
  \<open>strconv.Atoi\<close>: an optional sign, then one or more ASCII digits. A syntax error gives
  the value 0; a value outside the 64-bit range gives the nearest bound together with a
  range error. The callers in the parser discard the error and keep the value.
\<close>

definition Atoi :: "string \<Rightarrow> int \<times> NumError option" where
  "Atoi s =
     (let neg = (s \<noteq> [] \<and> hd s = CHR ''-'');
          ds = (if s \<noteq> [] \<and> (hd s = CHR ''-'' \<or> hd s = CHR ''+'') then tl s else s)
      in if ds = [] \<or> \<not> list_all isDigit ds then (0, Some ErrSyntax)
         else let n = decimal 0 ds
              in if \<not> neg \<and> n > maxInt64 then (maxInt64, Some ErrRange)
                 else if neg \<and> n > 2 ^ 63 then (minInt64, Some ErrRange)
                 else (if neg then - n else n, None))"

text \<open>\<open>strings.Split(s, sep)\<close> for a one-byte separator: the pieces between the separators.\<close>

fun Split :: "char \<Rightarrow> string \<Rightarrow> string \<Rightarrow> string list" where
  "Split sep cur [] = [rev cur]"
| "Split sep cur (c # cs) =
     (if c = sep then rev cur # Split sep [] cs else Split sep (c # cur) cs)"

section \<open>Cue timestamps\<close>

datatype TimeError = InvalidTimeFormat

text \<open>
  \<open>parseCueTime\<close>: the three fields are read with \<open>Atoi\<close> (errors dropped), combined in
  64-bit \<open>int\<close> arithmetic with Go's truncating division, and scaled to nanoseconds.
\<close>

definition parseCueTime :: "string \<Rightarrow> int \<times> TimeError option" where
  "parseCueTime timeStr =
     (case Split CHR '':'' [] timeStr of
        [p0, p1, p2] \<Rightarrow>
          (let minutes = fst (Atoi p0);
               seconds = fst (Atoi p1);
               frames = fst (Atoi p2);
               totalMilliseconds =
                 wrap64 (wrap64 (wrap64 (wrap64 (minutes * 60) * 1000) + wrap64 (seconds * 1000))
                         + wrap64 (frames * 1000) sdiv 75)
           in (wrap64 (totalMilliseconds * Millisecond), None))
      | _ \<Rightarrow> (0, Some InvalidTimeFormat))"

section \<open>Regular expressions\<close>

text \<open>
  The patterns of the program are compiled by Go's \<open>regexp\<close> package, whose matches are
  leftmost and, among those, the one a backtracking search finds first (greedy repetition,
  alternatives in order). \<open>run r s c\<close> lists, in that order of preference, every way for
  \<open>r\<close> to match a prefix of \<open>s\<close>: the input left over and the capture groups set.
  Patterns work on bytes here. Go matches runes, but every literal of the patterns below
  is the UTF-8 encoding of whole characters, and such a sequence occurs in a byte string
  only where a character starts, so the byte-wise match consumes the same text.
\<close>

datatype regex =
    Sym "char \<Rightarrow> bool"
  | Str string
  | Cat regex regex
  | Alt regex regex
  | Plus regex
  | Grp nat regex

type_synonym caps = "(nat \<times> string) list"

function run :: "regex \<Rightarrow> string \<Rightarrow> caps \<Rightarrow> (string \<times> caps) list" where
  "run (Sym P) s c = (case s of [] \<Rightarrow> [] | x # xs \<Rightarrow> if P x then [(xs, c)] else [])"
| "run (Str w) s c = (if take (length w) s = w then [(drop (length w) s, c)] else [])"
| "run (Cat r1 r2) s c = concat (map (\<lambda>(s', c'). run r2 s' c') (run r1 s c))"
| "run (Alt r1 r2) s c = run r1 s c @ run r2 s c"
| "run (Plus r) s c =
     concat (map (\<lambda>(s', c'). (if length s' < length s then run (Plus r) s' c' else [])
                               @ [(s', c')])
                 (run r s c))"
| "run (Grp n r) s c =
     map (\<lambda>(s', c'). (s', (n, take (length s - length s') s) # c')) (run r s c)"
  by pat_completeness auto
termination
  by (relation "inv_image (less_than <*lex*> less_than) (\<lambda>(r, s, c). (size r, length s))")
     auto

text \<open>The leftmost match: the first start position at which the pattern matches.\<close>

fun findFrom :: "regex \<Rightarrow> string \<Rightarrow> (string \<times> string \<times> caps) option" where
  "findFrom r [] = (case run r [] [] of [] \<Rightarrow> None | (s', c) # _ \<Rightarrow> Some ([], s', c))"
| "findFrom r (x # xs) =
     (case run r (x # xs) [] of
        [] \<Rightarrow> findFrom r xs
      | (s', c) # _ \<Rightarrow> Some (x # xs, s', c))"

text \<open>
  \<open>FindStringSubmatch\<close> for a pattern with \<open>n\<close> groups: the empty list (Go's \<open>nil\<close>) when
  nothing matches, else the matched text followed by the text of groups \<open>1..n\<close>.
\<close>

definition FindStringSubmatch :: "regex \<Rightarrow> nat \<Rightarrow> string \<Rightarrow> string list" where
  "FindStringSubmatch r n s =
     (case findFrom r s of
        None \<Rightarrow> []
      | Some (s0, s', c) \<Rightarrow>
          take (length s0 - length s') s0
          # map (\<lambda>i. case map_of c i of None \<Rightarrow> [] | Some t \<Rightarrow> t) [1..<Suc n])"

text \<open>
  A letter under the flag \<open>(?i)\<close> matches both of its ASCII cases; \<open>K\<close> also matches the
  Kelvin sign U+212A and \<open>S\<close> the long s U+017F, the other members of their Unicode
  simple-folding orbits.
\<close>

definition upperLetters :: string where
  "upperLetters = ''ABCDEFGHIJKLMNOPQRSTUVWXYZ''"

definition lowerLetters :: string where
  "lowerLetters = ''abcdefghijklmnopqrstuvwxyz''"

definition foldPair :: "char \<Rightarrow> char \<Rightarrow> regex" where
  "foldPair u l =
     (if u = CHR ''K'' then Alt (Sym (\<lambda>x. x = u \<or> x = l)) (Str [CHR 0xE2, CHR 0x84, CHR 0xAA])
      else if u = CHR ''S'' then Alt (Sym (\<lambda>x. x = u \<or> x = l)) (Str [CHR 0xC5, CHR 0xBF])
      else Sym (\<lambda>x. x = u \<or> x = l))"

definition foldSym :: "char \<Rightarrow> regex" where
  "foldSym c =
     (case map_of (zip upperLetters lowerLetters) c of
        Some l \<Rightarrow> foldPair c l
      | None \<Rightarrow>
          (case map_of (zip lowerLetters upperLetters) c of
             Some u \<Rightarrow> foldPair u c
           | None \<Rightarrow> Sym (\<lambda>x. x = c)))"

definition StrI :: "string \<Rightarrow> regex" where
  "StrI w = foldr (\<lambda>c r. Cat (foldSym c) r) w (Str [])"

definition digit :: regex where
  "digit = Sym isDigit"

definition dot :: regex where
  "dot = Sym (\<lambda>c. c \<noteq> CHR 0x0A)"

definition notQuote :: regex where
  "notQuote = Sym (\<lambda>c. c \<noteq> CHR 0x22)"

text \<open>\<^verbatim>\<open>(?i)FILE "([^"]+)"\<close>\<close>

definition fileRegex :: regex where
  "fileRegex = Cat (StrI (''FILE '' @ [CHR 0x22])) (Cat (Grp 1 (Plus notQuote)) (Str [CHR 0x22]))"

text \<open>\<^verbatim>\<open>(?i)TRACK (\d+) AUDIO\<close>\<close>

definition trackRegex :: regex where
  "trackRegex = Cat (StrI ''TRACK '') (Cat (Grp 1 (Plus digit)) (StrI '' AUDIO''))"

text \<open>\<^verbatim>\<open>(?i)TITLE "([^"]+)"\<close>\<close>

definition titleRegex :: regex where
  "titleRegex = Cat (StrI (''TITLE '' @ [CHR 0x22])) (Cat (Grp 1 (Plus notQuote)) (Str [CHR 0x22]))"

text \<open>\<^verbatim>\<open>(?i)INDEX 01 (\d{2}:\d{2}:\d{2})\<close>\<close>

definition indexRegex :: regex where
  "indexRegex =
     Cat (StrI ''INDEX 01 '')
         (Grp 1 (Cat digit (Cat digit (Cat (Str '':'')
                (Cat digit (Cat digit (Cat (Str '':'') (Cat digit digit))))))))"

text \<open>
  The guest-performer pattern of \<open>processCueFile\<close>: one or more characters, a space or a
  full-width opening bracket U+FF08, the word U+4E0E or \<open>feat.\<close>, one or more characters,
  and a full-width U+FF09 or ASCII closing bracket.
\<close>

definition fwOpen :: string where
  "fwOpen = [CHR 0xEF, CHR 0xBC, CHR 0x88]"

definition fwClose :: string where
  "fwClose = [CHR 0xEF, CHR 0xBC, CHR 0x89]"

definition yu :: string where
  "yu = [CHR 0xE4, CHR 0xB8, CHR 0x8E]"

definition reFt :: regex where
  "reFt =
     Cat (Grp 1 (Plus dot))
         (Cat (Alt (Str '' '') (Str fwOpen))
              (Cat (Alt (Str yu) (Str ''feat.''))
                   (Cat (Grp 2 (Plus dot)) (Alt (Str fwClose) (Str '')'')))))"

section \<open>Strings\<close>

text \<open>
  \<open>strings.TrimSpace\<close> removes leading and trailing runes with the Unicode property
  White_Space. \<open>spaceRunes\<close> lists their UTF-8 encodings; each starts with an ASCII byte
  or a lead byte, so a byte prefix or suffix equal to an encoding is that rune.
\<close>

definition spaceRunes :: "string list" where
  "spaceRunes =
     [[CHR 0x09], [CHR 0x0A], [CHR 0x0B], [CHR 0x0C], [CHR 0x0D], [CHR 0x20],
      [CHR 0xC2, CHR 0x85], [CHR 0xC2, CHR 0xA0], [CHR 0xE1, CHR 0x9A, CHR 0x80],
      [CHR 0xE2, CHR 0x80, CHR 0x80], [CHR 0xE2, CHR 0x80, CHR 0x81],
      [CHR 0xE2, CHR 0x80, CHR 0x82], [CHR 0xE2, CHR 0x80, CHR 0x83],
      [CHR 0xE2, CHR 0x80, CHR 0x84], [CHR 0xE2, CHR 0x80, CHR 0x85],
      [CHR 0xE2, CHR 0x80, CHR 0x86], [CHR 0xE2, CHR 0x80, CHR 0x87],
      [CHR 0xE2, CHR 0x80, CHR 0x88], [CHR 0xE2, CHR 0x80, CHR 0x89],
      [CHR 0xE2, CHR 0x80, CHR 0x8A], [CHR 0xE2, CHR 0x80, CHR 0xA8],
      [CHR 0xE2, CHR 0x80, CHR 0xA9], [CHR 0xE2, CHR 0x80, CHR 0xAF],
      [CHR 0xE2, CHR 0x81, CHR 0x9F], [CHR 0xE3, CHR 0x80, CHR 0x80]]"

function dropSpaces :: "string list \<Rightarrow> string \<Rightarrow> string" where
  "dropSpaces ws s =
     (case find (\<lambda>w. w \<noteq> [] \<and> take (length w) s = w) ws of
        None \<Rightarrow> s
      | Some w \<Rightarrow> dropSpaces ws (drop (length w) s))"
  by pat_completeness auto
termination
proof (relation "measure (\<lambda>(ws, s). length s)")
  show "wf (measure (\<lambda>(ws, s). length s))"
    by simp
next
  fix ws :: "string list" and s w :: string
  assume "find (\<lambda>w. w \<noteq> [] \<and> take (length w) s = w) ws = Some w"
  then have w: "w \<noteq> []" "take (length w) s = w"
    by (auto simp: find_Some_iff)
  then have "s \<noteq> []"
    by auto
  with w show "((ws, drop (length w) s), (ws, s)) \<in> measure (\<lambda>(ws, s). length s)"
    by simp
qed

definition TrimSpace :: "string \<Rightarrow> string" where
  "TrimSpace s = rev (dropSpaces (map rev spaceRunes) (rev (dropSpaces spaceRunes s)))"

text \<open>\<open>strings.Contains\<close>.\<close>

fun Contains :: "string \<Rightarrow> string \<Rightarrow> bool" where
  "Contains [] sub = (sub = [])"
| "Contains (x # xs) sub = (take (length sub) (x # xs) = sub \<or> Contains xs sub)"

section \<open>Reading a cue sheet line by line\<close>

text \<open>
  \<open>bufio.Scanner\<close> with the default split function: the input is cut at each line feed,
  one trailing carriage return is dropped from a line, and a last line without line feed
  is returned when it is not empty. A line of \<open>MaxScanTokenSize\<close> bytes or more does not
  fit the buffer: scanning stops there and \<open>Err\<close> reports it.
\<close>

definition MaxScanTokenSize :: nat where
  "MaxScanTokenSize = 65536"

fun rawLines :: "string \<Rightarrow> string \<Rightarrow> string list" where
  "rawLines cur [] = (if cur = [] then [] else [rev cur])"
| "rawLines cur (c # cs) =
     (if c = CHR 0x0A then rev cur # rawLines [] cs else rawLines (c # cur) cs)"

definition dropCR :: "string \<Rightarrow> string" where
  "dropCR l = (if l \<noteq> [] \<and> last l = CHR 0x0D then butlast l else l)"

definition scanLines :: "string \<Rightarrow> string list \<times> bool" where
  "scanLines content =
     (let raw = rawLines [] content;
          fit = takeWhile (\<lambda>l. length l < MaxScanTokenSize) raw
      in (map dropCR fit, length fit < length raw))"

section \<open>Albums, discs and tracks\<close>

record Track =
  Number :: int
  Title :: string
  Artist :: string
  StartTime :: int
  EndTime :: int
  Album :: string
  AlbumArtist :: string
  Year :: string
  OnlineID :: int
  Lyrics :: string

record Disc =
  DiscNumber :: int
  CuePath :: string
  WavPath :: string
  DiscTracks :: "Track list"

record AlbumRec =
  AlbumPath :: string
  AlbumArtistName :: string
  AlbumTitle :: string
  AlbumYear :: string
  CoverArt :: string
  Discs :: "Disc list"
  InfoContent :: string

record CueSheet =
  WavFile :: string
  Tracks :: "Track list"

text \<open>Go's zero values.\<close>

definition zeroTrack :: Track where
  "zeroTrack = \<lparr>Number = 0, Title = [], Artist = [], StartTime = 0, EndTime = 0, Album = [],
                 AlbumArtist = [], Year = [], OnlineID = 0, Lyrics = []\<rparr>"

definition zeroCueSheet :: CueSheet where
  "zeroCueSheet = \<lparr>WavFile = [], Tracks = []\<rparr>"

section \<open>The cue parser\<close>

text \<open>
  What the parser and the assembler ask of their surroundings: the decoded text of a file
  (\<open>readTextFileContent\<close>, or that it cannot be read), the script normaliser \<open>TradToSim\<close>,
  the path \<open>filepath.Join(filepath.Dir(cuePath), wav)\<close> and whether \<open>os.Stat\<close> reports
  that a path does not exist.
\<close>

datatype CueError = ReadFailed | ScanFailed | NoTracksFound | WavNotFound

record Env =
  readTextFileContent :: "string \<Rightarrow> string option"
  TradToSim :: "string \<Rightarrow> string"
  joinCueDir :: "string \<Rightarrow> string \<Rightarrow> string"
  statNotExist :: "string \<Rightarrow> bool"

text \<open>The body of the scanning loop of \<open>parseCueFile\<close>: one line, in the order of the source.\<close>

definition cueLine :: "CueSheet \<times> Track option \<Rightarrow> string \<Rightarrow> CueSheet \<times> Track option" where
  "cueLine st raw =
     (let line = TrimSpace raw;
          cue = fst st;
          currentTrack = snd st
      in if length (FindStringSubmatch fileRegex 1 line) > 1
         then (cue\<lparr>WavFile := FindStringSubmatch fileRegex 1 line ! 1\<rparr>, currentTrack)
         else if length (FindStringSubmatch trackRegex 1 line) > 1
         then ((case currentTrack of
                  Some t \<Rightarrow> cue\<lparr>Tracks := Tracks cue @ [t]\<rparr>
                | None \<Rightarrow> cue),
               Some (zeroTrack\<lparr>Number := fst (Atoi (FindStringSubmatch trackRegex 1 line ! 1))\<rparr>))
         else (case currentTrack of
                 None \<Rightarrow> st
               | Some t \<Rightarrow>
                   if length (FindStringSubmatch titleRegex 1 line) > 1
                   then (cue, Some (t\<lparr>Title := FindStringSubmatch titleRegex 1 line ! 1\<rparr>))
                   else if length (FindStringSubmatch indexRegex 1 line) > 1
                   then (cue, Some (t\<lparr>StartTime :=
                                       fst (parseCueTime (FindStringSubmatch indexRegex 1 line ! 1))\<rparr>))
                   else st))"

definition parseCueText :: "string \<Rightarrow> CueError + CueSheet" where
  "parseCueText content =
     (let scanned = scanLines content;
          st = foldl cueLine (zeroCueSheet, None) (fst scanned);
          cue = (case snd st of
                   Some t \<Rightarrow> (fst st)\<lparr>Tracks := Tracks (fst st) @ [t]\<rparr>
                 | None \<Rightarrow> fst st)
      in if snd scanned then Inl ScanFailed
         else if Tracks cue = [] then Inl NoTracksFound
         else Inr cue)"

definition parseCueFile :: "Env \<Rightarrow> string \<Rightarrow> CueError + CueSheet" where
  "parseCueFile env cuePath =
     (case readTextFileContent env cuePath of
        None \<Rightarrow> Inl ReadFailed
      | Some content \<Rightarrow> parseCueText content)"

section \<open>Building a disc from a cue sheet\<close>

text \<open>
  The body of the track loop of \<open>processCueFile\<close>; \<open>next\<close> is the start of the following
  cue track, \<open>cueSheet.Tracks[i+1].StartTime\<close>, when \<open>i+1 < len(cueSheet.Tracks)\<close>.
\<close>

definition guestMarker1 :: string where
  "guestMarker1 = '' '' @ fwOpen @ yu"

definition guestMarker2 :: string where
  "guestMarker2 = '' ('' @ yu"

definition makeTrack :: "Env \<Rightarrow> AlbumRec \<Rightarrow> Track \<Rightarrow> int option \<Rightarrow> Track" where
  "makeTrack env album cueTrack next =
     (let track = zeroTrack\<lparr>Number := Number cueTrack,
                            Title := TradToSim env (Title cueTrack),
                            Album := AlbumTitle album,
                            AlbumArtist := AlbumArtistName album,
                            Artist := AlbumArtistName album,
                            Year := AlbumYear album,
                            StartTime := StartTime cueTrack\<rparr>;
          track1 =
            (if Contains (Title track) guestMarker1 \<or> Contains (Title track) guestMarker2
             then (let matches = FindStringSubmatch reFt 2 (Title track)
                   in if length matches > 2
                      then track\<lparr>Title := TrimSpace (matches ! 1),
                                 Artist := AlbumArtistName album @ '', ''
                                           @ TradToSim env (matches ! 2)\<rparr>
                      else track)
             else track\<lparr>Artist := AlbumArtistName album\<rparr>)
      in case next of
           Some t \<Rightarrow> track1\<lparr>EndTime := t\<rparr>
         | None \<Rightarrow> track1)"

fun buildTracks :: "Env \<Rightarrow> AlbumRec \<Rightarrow> Track list \<Rightarrow> Track list" where
  "buildTracks env album [] = []"
| "buildTracks env album [t] = [makeTrack env album t None]"
| "buildTracks env album (t # n # rest) =
     makeTrack env album t (Some (StartTime n)) # buildTracks env album (n # rest)"

definition processCueFile :: "Env \<Rightarrow> string \<Rightarrow> AlbumRec \<Rightarrow> int \<Rightarrow> CueError + Disc" where
  "processCueFile env cuePath album discNumber =
     (case parseCueFile env cuePath of
        Inl e \<Rightarrow> Inl e
      | Inr cueSheet \<Rightarrow>
          (let sourceWavPath = joinCueDir env cuePath (WavFile cueSheet)
           in if statNotExist env sourceWavPath then Inl WavNotFound
              else Inr \<lparr>DiscNumber = discNumber, CuePath = cuePath, WavPath = sourceWavPath,
                        DiscTracks = buildTracks env album (Tracks cueSheet)\<rparr>))"


section \<open>Paths and file names\<close>

text \<open>
  \<open>strings.ToLower\<close>, as far as a comparison of its result with an ASCII constant can
  tell: ASCII capitals are lowered, and the two characters outside ASCII whose lower case
  is an ASCII letter, U+0130 and U+212A, become \<open>i\<close> and \<open>k\<close>.
\<close>

definition lowerASCII :: "char \<Rightarrow> char" where
  "lowerASCII c = (case map_of (zip upperLetters lowerLetters) c of Some l \<Rightarrow> l | None \<Rightarrow> c)"

fun ToLower :: "string \<Rightarrow> string" where
  "ToLower [] = []"
| "ToLower (c # cs) =
     (if c = CHR 0xC4 \<and> take 1 cs = [CHR 0xB0] then CHR ''i'' # ToLower (drop 1 cs)
      else if c = CHR 0xE2 \<and> take 2 cs = [CHR 0x84, CHR 0xAA] then CHR ''k'' # ToLower (drop 2 cs)
      else lowerASCII c # ToLower cs)"

definition HasSuffix :: "string \<Rightarrow> string \<Rightarrow> bool" where
  "HasSuffix s suffix =
     (length suffix \<le> length s \<and> drop (length s - length suffix) s = suffix)"

text \<open>
  \<open>filepath.Ext\<close>: the suffix from the last dot of the last path element, or nothing.
  \<open>extRev\<close> walks the path from its end, as the loop of \<open>Ext\<close> does.
\<close>

fun extRev :: "string \<Rightarrow> string \<Rightarrow> string" where
  "extRev acc [] = []"
| "extRev acc (c # cs) =
     (if c = CHR ''/'' then []
      else if c = CHR ''.'' then CHR ''.'' # acc
      else extRev (c # acc) cs)"

definition Ext :: "string \<Rightarrow> string" where
  "Ext path = extRev [] (rev path)"

text \<open>\<open>filepath.Base\<close>: the last element of the path, trailing separators removed.\<close>

definition Base :: "string \<Rightarrow> string" where
  "Base path =
     (if path = [] then ''.''
      else let stripped = rev (dropWhile (\<lambda>c. c = CHR ''/'') (rev path))
           in if stripped = [] then ''/''
              else rev (takeWhile (\<lambda>c. c \<noteq> CHR ''/'') (rev stripped)))"

text \<open>
  \<open>filepath.Join(dir, name)\<close> for the arguments the detector passes: a directory path in
  clean form and the name of one of its entries (not empty, without separator).
\<close>

definition Join :: "string \<Rightarrow> string \<Rightarrow> string" where
  "Join dir name =
     (if dir = [] then name
      else if last dir = CHR ''/'' then dir @ name
      else dir @ CHR ''/'' # name)"

definition audioExts :: "string list" where
  "audioExts = [''.wav'', ''.flac'', ''.mp3'', ''.m4a'', ''.aac'', ''.ogg'', ''.ape'', ''.wv'']"

definition isAudioFile :: "string \<Rightarrow> bool" where
  "isAudioFile filePath = (ToLower (Ext filePath) \<in> set audioExts)"

text \<open>The condition of the root package's detector on an entry: path and entry name.\<close>

definition relevantMain :: "string \<Rightarrow> string \<Rightarrow> bool" where
  "relevantMain filePath name =
     (let ext = ToLower (Ext name)
      in isAudioFile filePath
         \<or> ToLower name = ''info.txt''
         \<or> HasSuffix ext ''.cue''
         \<or> HasSuffix ext ''.json''
         \<or> HasSuffix ext ''.jpg'' \<or> HasSuffix ext ''.png'')"

text \<open>\<open>util.IsRelevantMusicFile\<close>, the condition of the scheduler package's detector.\<close>

definition IsRelevantMusicFile :: "string \<Rightarrow> bool" where
  "IsRelevantMusicFile filePath =
     (let ext = ToLower (Ext filePath);
          name = ToLower (Base filePath)
      in if ext \<in> set audioExts then True
         else if ext \<in> set [''.cue'', ''.json'', ''.jpg'', ''.png''] then True
         else name = ''info.txt'')"

section \<open>The stability detector\<close>

text \<open>
  Instants are readings of the process's clock in nanoseconds; \<open>Time.Sub\<close> is their
  difference, kept within the range of a \<open>Duration\<close>. A reading of \<open>time.Now()\<close> is never
  the zero \<open>Time\<close>, so \<open>IsZero\<close> holds of a map lookup exactly when the key is absent.
\<close>

definition timeSub :: "int \<Rightarrow> int \<Rightarrow> int" where
  "timeSub t u = max minInt64 (min maxInt64 (t - u))"

definition Second :: int where
  "Second = 1000000000"

record fileInfo =
  Size :: int
  ModTime :: int

datatype InfoResult = InfoOK fileInfo | InfoNotExist | InfoError

record DirEntry =
  Name :: string
  IsDir :: bool
  Info :: InfoResult

text \<open>
  One turn of the polling loop as the surroundings answer it: the clock when the loop
  condition is tested, the clock read into \<open>currentCheckTime\<close>, and the result of
  \<open>os.ReadDir\<close> (\<open>None\<close> for an error). Sleeping shows only in these readings.
\<close>

record Poll =
  guardNow :: int
  checkNow :: int
  listing :: "DirEntry list option"

record PollState =
  allRelevantFilesQuiet :: bool
  hasRelevantFiles :: bool
  currentFileStates :: "string \<rightharpoonup> fileInfo"
  fileQuietTimes :: "(string \<times> int) list"

definition fileChanged :: "(string \<rightharpoonup> fileInfo) \<Rightarrow> string \<Rightarrow> fileInfo \<Rightarrow> bool" where
  "fileChanged previousFileStates filePath info =
     (case previousFileStates filePath of
        Some prevInfo \<Rightarrow> Size prevInfo \<noteq> Size info \<or> ModTime prevInfo \<noteq> ModTime info
      | None \<Rightarrow> True)"

text \<open>The effect of one relevant entry with readable metadata on the state of the poll.\<close>

definition noteFile ::
  "int \<Rightarrow> int \<Rightarrow> (string \<rightharpoonup> fileInfo) \<Rightarrow> string \<Rightarrow> fileInfo \<Rightarrow> PollState \<Rightarrow> PollState" where
  "noteFile currentCheckTime quietDuration previousFileStates filePath info st =
     (let st1 = st\<lparr>hasRelevantFiles := True,
                    currentFileStates := (currentFileStates st)(filePath \<mapsto> info)\<rparr>
      in if fileChanged previousFileStates filePath info
         then st1\<lparr>fileQuietTimes := AList.update filePath currentCheckTime (fileQuietTimes st1),
                  allRelevantFilesQuiet := False\<rparr>
         else (case map_of (fileQuietTimes st1) filePath of
                 None \<Rightarrow>
                   st1\<lparr>fileQuietTimes :=
                         AList.update filePath currentCheckTime (fileQuietTimes st1),
                       allRelevantFilesQuiet := False\<rparr>
               | Some lastChangeTime \<Rightarrow>
                   if timeSub currentCheckTime lastChangeTime < quietDuration
                   then st1\<lparr>allRelevantFilesQuiet := False\<rparr>
                   else st1))"

text \<open>
  The loop over the entries of one listing. An entry whose metadata cannot be read for a
  reason other than its absence ends the loop (\<open>break\<close>) with the poll marked unstable.
\<close>

fun scanEntries ::
  "(string \<Rightarrow> string \<Rightarrow> bool) \<Rightarrow> string \<Rightarrow> int \<Rightarrow> int \<Rightarrow> (string \<rightharpoonup> fileInfo)
   \<Rightarrow> DirEntry list \<Rightarrow> PollState \<Rightarrow> PollState" where
  "scanEntries relevant dir now quiet prev [] st = st"
| "scanEntries relevant dir now quiet prev (entry # entries) st =
     (if IsDir entry then scanEntries relevant dir now quiet prev entries st
      else case Info entry of
             InfoNotExist \<Rightarrow> scanEntries relevant dir now quiet prev entries st
           | InfoError \<Rightarrow> st\<lparr>allRelevantFilesQuiet := False, hasRelevantFiles := True\<rparr>
           | InfoOK info \<Rightarrow>
               if relevant (Join dir (Name entry)) (Name entry)
               then scanEntries relevant dir now quiet prev entries
                      (noteFile now quiet prev (Join dir (Name entry)) info st)
               else scanEntries relevant dir now quiet prev entries st)"

datatype WaitResult =
    Returned bool
  | Running "string \<rightharpoonup> fileInfo" "(string \<times> int) list"

text \<open>
  What follows the entry loop in one turn: no relevant file means stable at once;
  otherwise every file with a quiet-since time that is still listed must have been quiet
  for the whole quiet duration. \<open>Running\<close> carries the two maps into the next turn.
\<close>

definition allCurrentlyQuiet :: "int \<Rightarrow> int \<Rightarrow> PollState \<Rightarrow> bool" where
  "allCurrentlyQuiet now quiet st =
     list_all (\<lambda>(filePath, lastChangeTime).
                 currentFileStates st filePath = None
                 \<or> \<not> timeSub now lastChangeTime < quiet)
              (fileQuietTimes st)"

definition pollOnce ::
  "(string \<Rightarrow> string \<Rightarrow> bool) \<Rightarrow> string \<Rightarrow> int \<Rightarrow> (string \<rightharpoonup> fileInfo)
   \<Rightarrow> (string \<times> int) list \<Rightarrow> int \<Rightarrow> DirEntry list \<Rightarrow> WaitResult" where
  "pollOnce relevant dir quiet prev fq now entries =
     (let st = scanEntries relevant dir now quiet prev entries
                 \<lparr>allRelevantFilesQuiet = True, hasRelevantFiles = False,
                  currentFileStates = Map.empty, fileQuietTimes = fq\<rparr>
      in if \<not> hasRelevantFiles st then Returned True
         else if allRelevantFilesQuiet st \<and> allCurrentlyQuiet now quiet st then Returned True
         else Running (currentFileStates st) (fileQuietTimes st))"

text \<open>
  The polling loop over the turns the surroundings supply. \<open>retry\<close> tells the two copies
  of the detector apart: on a listing error the root package returns \<open>false\<close>, the
  scheduler package sleeps and goes on to the next turn. When the turns are used up the
  loop is still running, in the state \<open>Running\<close> shows.
\<close>

fun waitLoop ::
  "(string \<Rightarrow> string \<Rightarrow> bool) \<Rightarrow> bool \<Rightarrow> string \<Rightarrow> int \<Rightarrow> int \<Rightarrow> int
   \<Rightarrow> (string \<rightharpoonup> fileInfo) \<Rightarrow> (string \<times> int) list \<Rightarrow> Poll list \<Rightarrow> WaitResult" where
  "waitLoop relevant retry dir quiet maxWait start prev fq [] = Running prev fq"
| "waitLoop relevant retry dir quiet maxWait start prev fq (p # ps) =
     (if \<not> timeSub (guardNow p) start < maxWait then Returned False
      else case listing p of
             None \<Rightarrow>
               if retry then waitLoop relevant retry dir quiet maxWait start prev fq ps
               else Returned False
           | Some entries \<Rightarrow>
               (case pollOnce relevant dir quiet prev fq (checkNow p) entries of
                  Returned b \<Rightarrow> Returned b
                | Running prev' fq' \<Rightarrow>
                    waitLoop relevant retry dir quiet maxWait start prev' fq' ps))"

text \<open>\<open>waitForFilesStability\<close> of the root package (\<open>main.go\<close>).\<close>

definition waitForFilesStability ::
  "string \<Rightarrow> int \<Rightarrow> int \<Rightarrow> int \<Rightarrow> int \<Rightarrow> Poll list \<Rightarrow> WaitResult" where
  "waitForFilesStability dir checkInterval quietDuration maxWait startOverallWait polls =
     waitLoop relevantMain False dir quietDuration maxWait startOverallWait Map.empty [] polls"

record Config =
  StabilityCheckInterval :: int
  StabilityQuietDuration :: int
  StabilityMaxWait :: int
  MusicLibDir :: string

text \<open>\<open>TaskScheduler.waitForFilesStability\<close> of the scheduler package.\<close>

definition TaskScheduler_waitForFilesStability ::
  "Config \<Rightarrow> string \<Rightarrow> int \<Rightarrow> Poll list \<Rightarrow> WaitResult" where
  "TaskScheduler_waitForFilesStability cfg dir startOverallWait polls =
     waitLoop (\<lambda>filePath name. IsRelevantMusicFile filePath) True dir
       (StabilityQuietDuration cfg) (StabilityMaxWait cfg) startOverallWait Map.empty [] polls"

text \<open>
  Observers of one listing, following the entry loop up to its \<open>break\<close>: the path is
  recorded as a relevant file of this poll, and it is recorded as changed (new, or with
  another size or modification time than at the previous poll).
\<close>

fun seenIn ::
  "(string \<Rightarrow> string \<Rightarrow> bool) \<Rightarrow> string \<Rightarrow> DirEntry list \<Rightarrow> string \<Rightarrow> bool" where
  "seenIn relevant dir [] path = False"
| "seenIn relevant dir (entry # entries) path =
     (if IsDir entry then seenIn relevant dir entries path
      else case Info entry of
             InfoNotExist \<Rightarrow> seenIn relevant dir entries path
           | InfoError \<Rightarrow> False
           | InfoOK info \<Rightarrow>
               (relevant (Join dir (Name entry)) (Name entry) \<and> Join dir (Name entry) = path)
               \<or> seenIn relevant dir entries path)"

fun changedIn ::
  "(string \<Rightarrow> string \<Rightarrow> bool) \<Rightarrow> string \<Rightarrow> (string \<rightharpoonup> fileInfo) \<Rightarrow> DirEntry list
   \<Rightarrow> string \<Rightarrow> bool" where
  "changedIn relevant dir prev [] path = False"
| "changedIn relevant dir prev (entry # entries) path =
     (if IsDir entry then changedIn relevant dir prev entries path
      else case Info entry of
             InfoNotExist \<Rightarrow> changedIn relevant dir prev entries path
           | InfoError \<Rightarrow> False
           | InfoOK info \<Rightarrow>
               (relevant (Join dir (Name entry)) (Name entry) \<and> Join dir (Name entry) = path
                \<and> fileChanged prev path info)
               \<or> changedIn relevant dir prev entries path)"

section \<open>The processed ledger\<close>

text \<open>
  The table \<open>processed_albums\<close> holds each path at most once. A statement may fail;
  whether it does is an answer of the surroundings. \<open>IsAlbumProcessed\<close> returns
  \<open>count > 0\<close>, or \<open>false\<close> with an error; \<open>AddProcessedAlbum\<close> runs \<open>INSERT OR IGNORE\<close>.
  The second component of each result tells whether the error is not \<open>nil\<close>.
\<close>

definition IsAlbumProcessed :: "string list \<Rightarrow> bool \<Rightarrow> string \<Rightarrow> bool \<times> bool" where
  "IsAlbumProcessed rows queryFails albumPath =
     (if queryFails then (False, True) else (albumPath \<in> set rows, False))"

definition AddProcessedAlbum :: "string list \<Rightarrow> bool \<Rightarrow> string \<Rightarrow> string list \<times> bool" where
  "AddProcessedAlbum rows insertFails albumPath =
     (if insertFails then (rows, True)
      else (if albumPath \<in> set rows then rows else rows @ [albumPath], False))"

section \<open>The scan scheduler\<close>

text \<open>
  The scheduler's state: the map \<open>pendingScans\<close> from directory to timer, the timers
  created by \<open>time.AfterFunc\<close> that have neither fired nor been stopped, each with the
  directory its callback scans, the next unused timer handle, the rows of the ledger, and
  the calls made so far to the collaborators, in order.
\<close>

datatype Call =
    CallPerformScan string
  | CallScanAlbumDirectory string
  | CallFetchMetadata Track
  | CallProcessAlbum AlbumRec string
  | CallAddProcessedAlbum string

record World =
  pendingScans :: "(string \<times> nat) list"
  timers :: "(nat \<times> string) list"
  nextTimer :: nat
  ledger :: "string list"
  calls :: "Call list"

definition initWorld :: World where
  "initWorld = \<lparr>pendingScans = [], timers = [], nextTimer = 0, ledger = [], calls = []\<rparr>"

text \<open>\<open>timer.Stop()\<close>: a timer that is still waiting is withdrawn; otherwise nothing happens.\<close>

definition stopTimer :: "nat \<Rightarrow> (nat \<times> string) list \<Rightarrow> (nat \<times> string) list" where
  "stopTimer timer ts = filter (\<lambda>(t, d). t \<noteq> timer) ts"

text \<open>
  \<open>triggerScan\<close> of the root package and \<open>TaskScheduler.TriggerScan\<close>, which are the same
  code: stop the timer the map holds for the directory, if any, start a new one and store
  it in the map. All of it runs under \<open>pendingScansMutex\<close>.
\<close>

definition triggerScan :: "string \<Rightarrow> World \<Rightarrow> World" where
  "triggerScan dirPath w =
     (let armed = (case map_of (pendingScans w) dirPath of
                     Some timer \<Rightarrow> stopTimer timer (timers w)
                   | None \<Rightarrow> timers w);
          timer = nextTimer w
      in w\<lparr>timers := armed @ [(timer, dirPath)],
           pendingScans := AList.update dirPath timer (pendingScans w),
           nextTimer := Suc timer\<rparr>)"

text \<open>What the collaborators answer during one execution of \<open>performScan\<close>.\<close>

record ScanEnv =
  startOverallWait :: int
  polls :: "Poll list"
  queryFails :: bool
  scanAlbum :: "AlbumRec option \<times> bool"
  fetched :: "Track \<Rightarrow> Track"
  processFails :: bool
  insertFails :: bool

definition stabilityCheckInterval :: int where
  "stabilityCheckInterval = 5 * Second"

definition stabilityQuietDuration :: int where
  "stabilityQuietDuration = 60 * Second"

definition stabilityMaxWait :: int where
  "stabilityMaxWait = 12 * 3600 * Second"

definition musicLibDir :: string where
  "musicLibDir = ''/app/music''"

text \<open>
  \<open>performScan\<close> of the root package, run under \<open>scanMutex\<close>. The result is \<open>None\<close> when
  the detector has not returned within the turns supplied.
\<close>

definition performScan :: "ScanEnv \<Rightarrow> string \<Rightarrow> World \<Rightarrow> World option" where
  "performScan env dir w0 =
     (let w = w0\<lparr>calls := calls w0 @ [CallPerformScan dir]\<rparr>
      in case waitForFilesStability dir stabilityCheckInterval stabilityQuietDuration
                stabilityMaxWait (startOverallWait env) (polls env) of
           Running prev fq \<Rightarrow> None
         | Returned isStable \<Rightarrow>
             if \<not> isStable then Some (triggerScan dir w)
             else if fst (IsAlbumProcessed (ledger w) (queryFails env) dir) then Some w
             else let w1 = w\<lparr>calls := calls w @ [CallScanAlbumDirectory dir]\<rparr>
                  in if snd (scanAlbum env) then Some w1
                     else (case fst (scanAlbum env) of
                             None \<Rightarrow> Some w1
                           | Some album \<Rightarrow>
                               if length (Discs album) > 0
                               then (let w2 = w1\<lparr>calls := calls w1
                                                    @ [CallProcessAlbum album musicLibDir]\<rparr>
                                     in if processFails env then Some w2
                                        else Some (w2\<lparr>ledger := fst (AddProcessedAlbum (ledger w2)
                                                                      (insertFails env) dir),
                                                      calls := calls w2
                                                        @ [CallAddProcessedAlbum dir]\<rparr>))
                               else Some w1))"

text \<open>
  \<open>TaskScheduler.performScan\<close>: as above, with the configured durations, and with the
  metadata of every track fetched (and the track updated in place) before the album is
  handed to the processor.
\<close>

definition fetchAll :: "ScanEnv \<Rightarrow> AlbumRec \<Rightarrow> AlbumRec" where
  "fetchAll env album =
     album\<lparr>Discs := map (\<lambda>disc. disc\<lparr>DiscTracks := map (fetched env) (DiscTracks disc)\<rparr>)
                         (Discs album)\<rparr>"

definition fetchCalls :: "AlbumRec \<Rightarrow> Call list" where
  "fetchCalls album = concat (map (\<lambda>disc. map CallFetchMetadata (DiscTracks disc)) (Discs album))"

definition TaskScheduler_performScan ::
  "Config \<Rightarrow> ScanEnv \<Rightarrow> string \<Rightarrow> World \<Rightarrow> World option" where
  "TaskScheduler_performScan cfg env dir w0 =
     (let w = w0\<lparr>calls := calls w0 @ [CallPerformScan dir]\<rparr>
      in case TaskScheduler_waitForFilesStability cfg dir (startOverallWait env) (polls env) of
           Running prev fq \<Rightarrow> None
         | Returned isStable \<Rightarrow>
             if \<not> isStable then Some (triggerScan dir w)
             else if fst (IsAlbumProcessed (ledger w) (queryFails env) dir) then Some w
             else let w1 = w\<lparr>calls := calls w @ [CallScanAlbumDirectory dir]\<rparr>
                  in if snd (scanAlbum env) then Some w1
                     else (case fst (scanAlbum env) of
                             None \<Rightarrow> Some w1
                           | Some album \<Rightarrow>
                               if length (Discs album) > 0
                               then (let w2 = w1\<lparr>calls := calls w1 @ fetchCalls album
                                                    @ [CallProcessAlbum (fetchAll env album)
                                                         (MusicLibDir cfg)]\<rparr>
                                     in if processFails env then Some w2
                                        else Some (w2\<lparr>ledger := fst (AddProcessedAlbum (ledger w2)
                                                                      (insertFails env) dir),
                                                      calls := calls w2
                                                        @ [CallAddProcessedAlbum dir]\<rparr>))
                               else Some w1))"

text \<open>
  The callback given to \<open>time.AfterFunc\<close>, run when the timer fires: the scan, then
  \<open>delete(pendingScans, dirPath)\<close>. A timer that was stopped does not fire.
\<close>

definition timerFires ::
  "(string \<Rightarrow> World \<Rightarrow> World option) \<Rightarrow> nat \<Rightarrow> World \<Rightarrow> World option" where
  "timerFires scan timer w =
     (case map_of (timers w) timer of
        None \<Rightarrow> Some w
      | Some dirPath \<Rightarrow>
          (case scan dirPath (w\<lparr>timers := stopTimer timer (timers w)\<rparr>) of
             None \<Rightarrow> None
           | Some w1 \<Rightarrow> Some (w1\<lparr>pendingScans := AList.delete dirPath (pendingScans w1)\<rparr>)))"

text \<open>The timers waiting to scan a directory.\<close>

definition armedFor :: "string \<Rightarrow> World \<Rightarrow> nat list" where
  "armedFor dirPath w = map fst (filter (\<lambda>(t, d). d = dirPath) (timers w))"

text \<open>The map holds the only timer waiting for the directory, or none is waiting.\<close>

definition registered :: "string \<Rightarrow> World \<Rightarrow> bool" where
  "registered d w =
     (armedFor d w = (case map_of (pendingScans w) d of Some t \<Rightarrow> [t] | None \<Rightarrow> []))"

section \<open>Concrete inputs\<close>

text \<open>Surroundings in which every file read returns the given text and nothing is missing.\<close>

definition demoEnv :: "string \<Rightarrow> Env" where
  "demoEnv content =
     \<lparr>readTextFileContent = (\<lambda>path. Some content), TradToSim = (\<lambda>text. text),
      joinCueDir = (\<lambda>cuePath wav. wav), statNotExist = (\<lambda>path. False)\<rparr>"

definition demoAlbum :: AlbumRec where
  "demoAlbum = \<lparr>AlbumPath = ''/app/download/a'', AlbumArtistName = ''Main'',
                 AlbumTitle = ''Hits'', AlbumYear = ''1999'', CoverArt = [], Discs = [],
                 InfoContent = []\<rparr>"

definition lineFile :: string where
  "lineFile = ''FILE '' @ [CHR 0x22] @ ''album.wav'' @ [CHR 0x22] @ '' WAVE''"

text \<open>The cue sheet of the scenario: three tracks at 00:00:00, 03:30:00 and 07:12:50.\<close>

definition cueThree :: string where
  "cueThree = lineFile @ [CHR 0x0A]
        @ ''  TRACK 01 AUDIO'' @ [CHR 0x0A]
        @ ''    INDEX 01 00:00:00'' @ [CHR 0x0A]
        @ ''  TRACK 02 AUDIO'' @ [CHR 0x0A]
        @ ''    INDEX 01 03:30:00'' @ [CHR 0x0A]
        @ ''  TRACK 03 AUDIO'' @ [CHR 0x0A]
        @ ''    INDEX 01 07:12:50'' @ [CHR 0x0A]"

text \<open>A cue sheet whose second track starts before its first.\<close>

definition cueBackwards :: string where
  "cueBackwards = lineFile @ [CHR 0x0A]
        @ ''  TRACK 01 AUDIO'' @ [CHR 0x0A]
        @ ''    INDEX 01 03:30:00'' @ [CHR 0x0A]
        @ ''  TRACK 02 AUDIO'' @ [CHR 0x0A]
        @ ''    INDEX 01 00:00:00'' @ [CHR 0x0A]"



definition discThree :: Disc where
  "discThree =
     \<lparr>DiscNumber = 1, CuePath = ''album.cue'', WavPath = ''album.wav'',
      DiscTracks =
        [\<lparr>Number = 1, Title = [], Artist = ''Main'', StartTime = 0,
          EndTime = 210000 * Millisecond, Album = ''Hits'',
          AlbumArtist = ''Main'', Year = ''1999'', OnlineID = 0, Lyrics = []\<rparr>,
         \<lparr>Number = 2, Title = [], Artist = ''Main'', StartTime = 210000 * Millisecond,
          EndTime = 432666 * Millisecond, Album = ''Hits'',
          AlbumArtist = ''Main'', Year = ''1999'', OnlineID = 0, Lyrics = []\<rparr>,
         \<lparr>Number = 3, Title = [], Artist = ''Main'', StartTime = 432666 * Millisecond,
          EndTime = 0, Album = ''Hits'',
          AlbumArtist = ''Main'', Year = ''1999'', OnlineID = 0, Lyrics = []\<rparr>]\<rparr>"

text \<open>
  The title of the scenario, \<open>Song\<close> followed by the bracketed guest clause, and the same
  title with a space before the bracket. \<open>heChang\<close> is the two characters U+5408 U+5531.
\<close>

definition heChang :: string where
  "heChang = [CHR 0xE5, CHR 0x90, CHR 0x88, CHR 0xE5, CHR 0x94, CHR 0xB1]"

definition songTitle :: string where
  "songTitle = ''Song'' @ fwOpen @ yu @ ''Guest'' @ heChang @ fwClose"

definition songTitleSpaced :: string where
  "songTitleSpaced = ''Song '' @ fwOpen @ yu @ ''Guest'' @ heChang @ fwClose"

text \<open>
  The title that the comment in \<open>processCueFile\<close> gives as its example: three characters
  (U+7B28 U+5C0F U+5B69), the full-width opening bracket, U+4E0E, two names separated by
  U+3001 (\<open>keWu\<close>), \<open>heChang\<close>, and the full-width closing bracket. It has no space before
  the bracket.
\<close>

definition benXiaoHai :: string where
  "benXiaoHai = [CHR 0xE7, CHR 0xAC, CHR 0xA8, CHR 0xE5, CHR 0xB0, CHR 0x8F,
                 CHR 0xE5, CHR 0xAD, CHR 0xA9]"

definition keWu :: string where
  "keWu = [CHR 0xE6, CHR 0x9F, CHR 0xAF, CHR 0xE5, CHR 0x8F, CHR 0x97, CHR 0xE8, CHR 0x89, CHR 0xAF,
           CHR 0xE3, CHR 0x80, CHR 0x81, CHR 0xE5, CHR 0x90, CHR 0xB4, CHR 0xE5, CHR 0xAE, CHR 0x97,
           CHR 0xE5, CHR 0xAE, CHR 0xAA]"

definition commentTitle :: string where
  "commentTitle = benXiaoHai @ fwOpen @ yu @ keWu @ heChang @ fwClose"

text \<open>Listings and turns of the polling loop for the directory \<open>/app/download/a\<close>.\<close>

definition dirA :: string where
  "dirA = ''/app/download/a''"

definition wavEntry :: DirEntry where
  "wavEntry = \<lparr>Name = ''a.wav'', IsDir = False, Info = InfoOK \<lparr>Size = 1024, ModTime = 0\<rparr>\<rparr>"

definition pollAt :: "int \<Rightarrow> DirEntry list option \<Rightarrow> Poll" where
  "pollAt seconds l = \<lparr>guardNow = seconds * Second, checkNow = seconds * Second, listing = l\<rparr>"

definition demoConfig :: Config where
  "demoConfig = \<lparr>StabilityCheckInterval = 5 * Second, StabilityQuietDuration = 60 * Second,
                  StabilityMaxWait = 12 * 3600 * Second, MusicLibDir = ''/app/music''\<rparr>"

text \<open>
  Answers of the collaborators: a wait that ends unstable because the maximal wait has
  passed; a wait over an empty directory followed by a scan that finds no disc; and a
  wait over an empty directory followed by a scan that assembles one disc.
\<close>

definition envUnstable :: ScanEnv where
  "envUnstable =
     \<lparr>startOverallWait = 0, polls = [pollAt (12 * 3600) (Some [wavEntry])], queryFails = False,
      scanAlbum = (Some demoAlbum, False), fetched = (\<lambda>track. track), processFails = False,
      insertFails = False\<rparr>"

definition envNoDisc :: ScanEnv where
  "envNoDisc =
     \<lparr>startOverallWait = 0, polls = [pollAt 0 (Some [])], queryFails = False,
      scanAlbum = (Some demoAlbum, False), fetched = (\<lambda>track. track), processFails = False,
      insertFails = False\<rparr>"

definition albumOneDisc :: AlbumRec where
  "albumOneDisc = demoAlbum\<lparr>Discs := [discThree]\<rparr>"

definition envOneDisc :: "bool \<Rightarrow> bool \<Rightarrow> ScanEnv" where
  "envOneDisc queryErr processErr =
     \<lparr>startOverallWait = 0, polls = [pollAt 0 (Some [])], queryFails = queryErr,
      scanAlbum = (Some albumOneDisc, False), fetched = (\<lambda>track. track),
      processFails = processErr, insertFails = False\<rparr>"

text \<open>
  A run of the scheduler: the first scan of \<open>dirA\<close> ends unstable and reschedules itself;
  before the rescheduled timer fires, \<open>triggerScan\<close> is called twice more; then the
  waiting timers fire over a directory that is empty by then.
\<close>

definition afterUnstable :: "(ScanEnv \<Rightarrow> string \<Rightarrow> World \<Rightarrow> World option) \<Rightarrow> World option" where
  "afterUnstable scan = timerFires (scan envUnstable) 0 (triggerScan dirA initWorld)"

definition afterBurst :: "(ScanEnv \<Rightarrow> string \<Rightarrow> World \<Rightarrow> World option) \<Rightarrow> World option" where
  "afterBurst scan = map_option (\<lambda>w. triggerScan dirA (triggerScan dirA w)) (afterUnstable scan)"

definition afterFiring :: "(ScanEnv \<Rightarrow> string \<Rightarrow> World \<Rightarrow> World option) \<Rightarrow> World option" where
  "afterFiring scan =
     Option.bind (afterBurst scan)
       (\<lambda>w. Option.bind (timerFires (scan envNoDisc) 1 w) (timerFires (scan envNoDisc) 3))"

definition discBackwards :: Disc where
  "discBackwards =
     \<lparr>DiscNumber = 1, CuePath = ''album.cue'', WavPath = ''album.wav'',
      DiscTracks =
        [\<lparr>Number = 1, Title = [], Artist = ''Main'', StartTime = 210000 * Millisecond,
          EndTime = 0, Album = ''Hits'',
          AlbumArtist = ''Main'', Year = ''1999'', OnlineID = 0, Lyrics = []\<rparr>,
         \<lparr>Number = 2, Title = [], Artist = ''Main'', StartTime = 0,
          EndTime = 0, Album = ''Hits'',
          AlbumArtist = ''Main'', Year = ''1999'', OnlineID = 0, Lyrics = []\<rparr>]\<rparr>"

section \<open>Properties of the timestamp conversion\<close>

lemma wrap64_id: "- (2 ^ 63) \<le> x \<Longrightarrow> x < 2 ^ 63 \<Longrightarrow> wrap64 x = x"
  by (simp add: wrap64_def)

lemma isDigit_not_colon: "isDigit c \<Longrightarrow> c \<noteq> CHR '':''"
  by (auto simp: isDigit_def)

lemma digitVal_range: "isDigit c \<Longrightarrow> 0 \<le> digitVal c \<and> digitVal c \<le> 9"
  by (auto simp: isDigit_def digitVal_def)

lemma isDigit_not_sign: "isDigit c \<Longrightarrow> c \<noteq> CHR ''-'' \<and> c \<noteq> CHR ''+''"
  by (auto simp: isDigit_def)

lemma Atoi_two_digits:
  assumes "isDigit a" "isDigit b"
  shows "Atoi [a, b] = (digitVal a * 10 + digitVal b, None)"
proof -
  have "digitVal a * 10 + digitVal b \<le> 99"
    using digitVal_range [OF assms(1)] digitVal_range [OF assms(2)] by linarith
  then have "\<not> digitVal a * 10 + digitVal b > maxInt64"
    by (simp add: maxInt64_def)
  then show ?thesis
    using assms isDigit_not_sign [OF assms(1)]
    by (simp add: Atoi_def Let_def)
qed

lemma Split_timestamp:
  assumes "isDigit m1" "isDigit m2" "isDigit s1" "isDigit s2" "isDigit f1" "isDigit f2"
  shows "Split CHR '':'' [] [m1, m2, CHR '':'', s1, s2, CHR '':'', f1, f2]
         = [[m1, m2], [s1, s2], [f1, f2]]"
  using assms by (simp add: isDigit_not_colon)

text \<open>
  Claim C2. For a timestamp \<open>MM:SS:FF\<close> (two decimal digits in each field, as the
  index-01 pattern of the parser requires), \<open>parseCueTime\<close> returns without error the
  duration of \<open>minutes*60000 + seconds*1000 + floor(frames*1000/75)\<close> milliseconds.
\<close>

theorem parseCueTime_formula:
  assumes "isDigit m1" "isDigit m2" "isDigit s1" "isDigit s2" "isDigit f1" "isDigit f2"
  shows "parseCueTime [m1, m2, CHR '':'', s1, s2, CHR '':'', f1, f2]
         = (((digitVal m1 * 10 + digitVal m2) * 60000
             + (digitVal s1 * 10 + digitVal s2) * 1000
             + ((digitVal f1 * 10 + digitVal f2) * 1000) div 75) * Millisecond, None)"
proof -
  define M where "M = digitVal m1 * 10 + digitVal m2"
  define S where "S = digitVal s1 * 10 + digitVal s2"
  define F where "F = digitVal f1 * 10 + digitVal f2"
  have M: "0 \<le> M" "M \<le> 99"
    using digitVal_range [OF assms(1)] digitVal_range [OF assms(2)] by (auto simp: M_def)
  have S: "0 \<le> S" "S \<le> 99"
    using digitVal_range [OF assms(3)] digitVal_range [OF assms(4)] by (auto simp: S_def)
  have F: "0 \<le> F" "F \<le> 99"
    using digitVal_range [OF assms(5)] digitVal_range [OF assms(6)] by (auto simp: F_def)
  have w1: "wrap64 (M * 60) = M * 60"
    using M by (intro wrap64_id) auto
  have w2: "wrap64 (M * 60 * 1000) = M * 60000"
    using M by (subst wrap64_id) auto
  have w3: "wrap64 (S * 1000) = S * 1000"
    using S by (intro wrap64_id) auto
  have w4: "wrap64 (F * 1000) = F * 1000"
    using F by (intro wrap64_id) auto
  have q: "(F * 1000) sdiv 75 = (F * 1000) div 75"
    using F by (simp add: signed_divide_int_def sgn_if)
  have qb: "0 \<le> (F * 1000) div 75" "(F * 1000) div 75 \<le> 1320"
    using F by auto
  have w5: "wrap64 (M * 60000 + S * 1000) = M * 60000 + S * 1000"
    using M S by (intro wrap64_id) auto
  have w6: "wrap64 (M * 60000 + S * 1000 + (F * 1000) div 75)
            = M * 60000 + S * 1000 + (F * 1000) div 75"
    using M S qb by (intro wrap64_id) auto
  have w7: "wrap64 ((M * 60000 + S * 1000 + (F * 1000) div 75) * Millisecond)
            = (M * 60000 + S * 1000 + (F * 1000) div 75) * Millisecond"
    using M S qb by (intro wrap64_id) (auto simp: Millisecond_def)
  have total: "wrap64 (wrap64 (wrap64 (wrap64 (wrap64 (M * 60) * 1000) + wrap64 (S * 1000))
                         + wrap64 (F * 1000) sdiv 75) * Millisecond)
               = (M * 60000 + S * 1000 + (F * 1000) div 75) * Millisecond"
    by (simp only: w1 w2 w3 w4 q w5 w6 w7)
  have atoi: "fst (Atoi [m1, m2]) = M" "fst (Atoi [s1, s2]) = S" "fst (Atoi [f1, f2]) = F"
    by (simp_all add: Atoi_two_digits assms M_def S_def F_def)
  have "parseCueTime [m1, m2, CHR '':'', s1, s2, CHR '':'', f1, f2]
        = (wrap64 (wrap64 (wrap64 (wrap64 (wrap64 (M * 60) * 1000) + wrap64 (S * 1000))
                         + wrap64 (F * 1000) sdiv 75) * Millisecond), None)"
    unfolding parseCueTime_def Split_timestamp [OF assms]
    by (simp only: list.case Let_def atoi)
  with total show ?thesis
    unfolding M_def S_def F_def by (simp only:)
qed

theorem parseCueTime_formula_witness:
  "isDigit CHR ''0'' \<and> isDigit CHR ''7'' \<and> isDigit CHR ''1'' \<and> isDigit CHR ''2''
   \<and> isDigit CHR ''5'' \<and> isDigit CHR ''0''
   \<and> parseCueTime ''07:12:50'' = (432666 * Millisecond, None)"
proof -
  have d: "isDigit CHR ''0''" "isDigit CHR ''7''" "isDigit CHR ''1''" "isDigit CHR ''2''"
    "isDigit CHR ''5''"
    by (simp_all add: isDigit_def)
  show ?thesis
    using parseCueTime_formula [OF d(1) d(2) d(3) d(4) d(5) d(1)] d
    by (simp add: digitVal_def)
qed

section \<open>Properties of the cue parser\<close>

subsection \<open>The scanning loop\<close>





lemma parseCueText_tracks: "parseCueText content = Inr cue \<Longrightarrow> Tracks cue \<noteq> []"
  by (auto simp: parseCueText_def Let_def split: if_splits)

subsection \<open>Single lines, evaluated\<close>

lemma cueLine_file: "cueLine (cue, cur) lineFile = (cue\<lparr>WavFile := ''album.wav''\<rparr>, cur)"
  unfolding cueLine_def lineFile_def by code_simp

lemma cueLine_track1:
  "cueLine (cue, cur) ''  TRACK 01 AUDIO''
   = ((case cur of Some t \<Rightarrow> cue\<lparr>Tracks := Tracks cue @ [t]\<rparr> | None \<Rightarrow> cue),
      Some (zeroTrack\<lparr>Number := 1\<rparr>))"
  unfolding cueLine_def by code_simp

lemma cueLine_track2:
  "cueLine (cue, cur) ''  TRACK 02 AUDIO''
   = ((case cur of Some t \<Rightarrow> cue\<lparr>Tracks := Tracks cue @ [t]\<rparr> | None \<Rightarrow> cue),
      Some (zeroTrack\<lparr>Number := 2\<rparr>))"
  unfolding cueLine_def by code_simp

lemma cueLine_track3:
  "cueLine (cue, cur) ''  TRACK 03 AUDIO''
   = ((case cur of Some t \<Rightarrow> cue\<lparr>Tracks := Tracks cue @ [t]\<rparr> | None \<Rightarrow> cue),
      Some (zeroTrack\<lparr>Number := 3\<rparr>))"
  unfolding cueLine_def by code_simp

lemma cueLine_index0:
  "cueLine (cue, Some t) ''    INDEX 01 00:00:00'' = (cue, Some (t\<lparr>StartTime := 0\<rparr>))"
  unfolding cueLine_def by code_simp

lemma cueLine_index1:
  "cueLine (cue, Some t) ''    INDEX 01 03:30:00''
   = (cue, Some (t\<lparr>StartTime := 210000 * Millisecond\<rparr>))"
  unfolding cueLine_def by code_simp

lemma cueLine_index2:
  "cueLine (cue, Some t) ''    INDEX 01 07:12:50''
   = (cue, Some (t\<lparr>StartTime := 432666 * Millisecond\<rparr>))"
  unfolding cueLine_def by code_simp

lemma cueLine_badIndex:
  "cueLine (cue, Some t) ''    INDEX 01 7:12:50'' = (cue, Some t)"
  unfolding cueLine_def by code_simp


lemmas scan_defs = scanLines_def MaxScanTokenSize_def dropCR_def lineFile_def

lemma scan_three:
  "scanLines cueThree = ([lineFile, ''  TRACK 01 AUDIO'', ''    INDEX 01 00:00:00'',
     ''  TRACK 02 AUDIO'', ''    INDEX 01 03:30:00'', ''  TRACK 03 AUDIO'',
     ''    INDEX 01 07:12:50''], False)"
  by (simp add: cueThree_def scan_defs)

lemma scan_backwards:
  "scanLines cueBackwards = ([lineFile, ''  TRACK 01 AUDIO'', ''    INDEX 01 03:30:00'',
     ''  TRACK 02 AUDIO'', ''    INDEX 01 00:00:00''], False)"
  by (simp add: cueBackwards_def scan_defs)



lemmas cueLine_evals = cueLine_file cueLine_track1 cueLine_track2 cueLine_track3
  cueLine_index0 cueLine_index1 cueLine_index2 cueLine_badIndex

lemma parse_three:
  "parseCueText cueThree
   = Inr \<lparr>WavFile = ''album.wav'',
          Tracks = [zeroTrack\<lparr>Number := 1, StartTime := 0\<rparr>,
                    zeroTrack\<lparr>Number := 2, StartTime := 210000 * Millisecond\<rparr>,
                    zeroTrack\<lparr>Number := 3, StartTime := 432666 * Millisecond\<rparr>]\<rparr>"
  by (simp add: parseCueText_def scan_three cueLine_evals zeroCueSheet_def)

lemma parse_backwards:
  "parseCueText cueBackwards
   = Inr \<lparr>WavFile = ''album.wav'',
          Tracks = [zeroTrack\<lparr>Number := 1, StartTime := 210000 * Millisecond\<rparr>,
                    zeroTrack\<lparr>Number := 2, StartTime := 0\<rparr>]\<rparr>"
  by (simp add: parseCueText_def scan_backwards cueLine_evals zeroCueSheet_def)


lemma parseCueFile_demo: "parseCueFile (demoEnv content) path = parseCueText content"
  by (simp add: parseCueFile_def demoEnv_def)

lemma makeTrack_plain:
  "makeTrack (demoEnv c) demoAlbum (zeroTrack\<lparr>Number := n, StartTime := s\<rparr>) nxt
   = \<lparr>Number = n, Title = [], Artist = ''Main'', StartTime = s,
      EndTime = (case nxt of Some e \<Rightarrow> e | None \<Rightarrow> 0), Album = ''Hits'',
      AlbumArtist = ''Main'', Year = ''1999'', OnlineID = 0, Lyrics = []\<rparr>"
  by (simp add: makeTrack_def demoEnv_def demoAlbum_def zeroTrack_def guestMarker1_def
      guestMarker2_def fwOpen_def yu_def split: option.split)

lemma demoEnv_wav:
  "joinCueDir (demoEnv c) cuePath wav = wav" "\<not> statNotExist (demoEnv c) path"
  by (simp_all add: demoEnv_def)

lemma process_three: "processCueFile (demoEnv cueThree) ''album.cue'' demoAlbum 1 = Inr discThree"
  unfolding processCueFile_def parseCueFile_demo parse_three discThree_def
  by (simp add: demoEnv_wav makeTrack_plain del: One_nat_def)

lemma process_backwards:
  "processCueFile (demoEnv cueBackwards) ''album.cue'' demoAlbum 1 = Inr discBackwards"
  unfolding processCueFile_def parseCueFile_demo parse_backwards discBackwards_def
  by (simp add: demoEnv_wav makeTrack_plain del: One_nat_def)

subsection \<open>The track loop of \<open>processCueFile\<close>\<close>

lemma makeTrack_StartTime: "StartTime (makeTrack env album t nxt) = StartTime t"
  by (simp add: makeTrack_def Let_def zeroTrack_def split: option.split)

lemma makeTrack_EndTime:
  "EndTime (makeTrack env album t nxt) = (case nxt of Some e \<Rightarrow> e | None \<Rightarrow> 0)"
  by (simp add: makeTrack_def Let_def zeroTrack_def split: option.split)

lemma buildTracks_length: "length (buildTracks env album ts) = length ts"
  by (induction env album ts rule: buildTracks.induct) simp_all

lemma buildTracks_StartTime:
  "map StartTime (buildTracks env album ts) = map StartTime ts"
  by (induction env album ts rule: buildTracks.induct) (simp_all add: makeTrack_StartTime)

lemma buildTracks_EndTime:
  "Suc i < length ts \<Longrightarrow>
   EndTime (buildTracks env album ts ! i) = StartTime (buildTracks env album ts ! Suc i)"
proof (induction env album ts arbitrary: i rule: buildTracks.induct)
  case (3 env album t n rest)
  show ?case
  proof (cases i)
    case 0
    have "StartTime (buildTracks env album (n # rest) ! 0) = StartTime n"
      using buildTracks_StartTime [of env album "n # rest"]
      by (cases rest) (simp_all add: makeTrack_StartTime)
    then show ?thesis
      using 0 by (simp add: makeTrack_EndTime)
  next
    case (Suc j)
    then show ?thesis
      using 3 by simp
  qed
qed simp_all

lemma buildTracks_last_EndTime:
  "ts \<noteq> [] \<Longrightarrow> EndTime (last (buildTracks env album ts)) = 0"
proof (induction env album ts rule: buildTracks.induct)
  case (3 env album t n rest)
  have "buildTracks env album (n # rest) \<noteq> []"
    using buildTracks_length [of env album "n # rest"] by (metis length_0_conv list.distinct(1))
  then show ?case
    using 3 by simp
qed (simp_all add: makeTrack_EndTime)

subsection \<open>Claims about the cue parser and the discs built from it\<close>

text \<open>
  Claim C1, as amended. On every disc that \<open>processCueFile\<close> returns, the track list is
  not empty and has one track per track of the cue sheet, with the cue sheet's start
  offsets in the same order; the end offset of each track that has a successor is the
  start offset of that successor, and the end offset of the last track is 0, the unset
  value. (The start offsets are therefore non-decreasing exactly when the timestamps of
  the cue sheet are; the code does not compare them.)
\<close>

theorem processCueFile_offsets:
  assumes "processCueFile env cuePath album discNumber = Inr disc"
  shows "\<exists>cue. parseCueFile env cuePath = Inr cue
           \<and> length (DiscTracks disc) = length (Tracks cue)
           \<and> DiscTracks disc \<noteq> []
           \<and> map StartTime (DiscTracks disc) = map StartTime (Tracks cue)
           \<and> (\<forall>i. Suc i < length (DiscTracks disc) \<longrightarrow>
                  EndTime (DiscTracks disc ! i) = StartTime (DiscTracks disc ! Suc i))
           \<and> EndTime (last (DiscTracks disc)) = 0"
proof -
  from assms obtain cue where cue: "parseCueFile env cuePath = Inr cue"
    by (auto simp: processCueFile_def split: sum.splits)
  with assms have d: "DiscTracks disc = buildTracks env album (Tracks cue)"
    by (auto simp: processCueFile_def Let_def split: if_splits)
  have ne: "Tracks cue \<noteq> []"
    using cue parseCueText_tracks
    by (auto simp: parseCueFile_def split: option.splits)
  have "DiscTracks disc \<noteq> []"
    using ne buildTracks_length [of env album "Tracks cue"] d by (metis length_0_conv)
  then show ?thesis
    using cue d ne
    by (auto simp: buildTracks_length buildTracks_StartTime buildTracks_EndTime
        buildTracks_last_EndTime)
qed

theorem processCueFile_offsets_witness:
  "processCueFile (demoEnv cueThree) ''album.cue'' demoAlbum 1 = Inr discThree
   \<and> length (DiscTracks discThree) = 3
   \<and> EndTime (DiscTracks discThree ! 0) = StartTime (DiscTracks discThree ! Suc 0)
   \<and> EndTime (DiscTracks discThree ! Suc 0) = StartTime (DiscTracks discThree ! Suc (Suc 0))
   \<and> EndTime (last (DiscTracks discThree)) = 0"
proof -
  have len: "length (DiscTracks discThree) = 3"
    by (simp add: discThree_def)
  from processCueFile_offsets [OF process_three]
  have ends: "\<forall>i. Suc i < length (DiscTracks discThree) \<longrightarrow>
                EndTime (DiscTracks discThree ! i) = StartTime (DiscTracks discThree ! Suc i)"
    and lst: "EndTime (last (DiscTracks discThree)) = 0"
    by blast+
  have "EndTime (DiscTracks discThree ! 0) = StartTime (DiscTracks discThree ! Suc 0)"
    using ends len by simp
  moreover have "EndTime (DiscTracks discThree ! Suc 0)
                 = StartTime (DiscTracks discThree ! Suc (Suc 0))"
    using ends len by simp
  ultimately show ?thesis
    using process_three len lst by simp
qed

theorem start_offsets_monotone_counterexample:
  "processCueFile (demoEnv cueBackwards) ''album.cue'' demoAlbum 1 = Inr discBackwards
   \<and> map StartTime (DiscTracks discBackwards) = [210000 * Millisecond, 0]
   \<and> \<not> sorted (map StartTime (DiscTracks discBackwards))"
  using process_backwards by (simp add: discBackwards_def Millisecond_def)

text \<open>
  Claim C3, as amended. The cue sheet with \<open>FILE "album.wav"\<close> and tracks 1 to 3 at
  \<open>00:00:00\<close>, \<open>03:30:00\<close> and \<open>07:12:50\<close> gives exactly three tracks, with start offsets
  0 ms, 210000 ms and 432666 ms and end offsets 210000 ms, 432666 ms and unset (0).
\<close>

theorem cue_scenario:
  "processCueFile (demoEnv cueThree) ''album.cue'' demoAlbum 1 = Inr discThree
   \<and> WavPath discThree = ''album.wav''
   \<and> map Number (DiscTracks discThree) = [1, 2, 3]
   \<and> map StartTime (DiscTracks discThree) = [0, 210000 * Millisecond, 432666 * Millisecond]
   \<and> map EndTime (DiscTracks discThree) = [210000 * Millisecond, 432666 * Millisecond, 0]"
  using process_three by (simp add: discThree_def)

theorem cue_scenario_counterexample:
  "processCueFile (demoEnv cueThree) ''album.cue'' demoAlbum 1 = Inr discThree
   \<and> StartTime (DiscTracks discThree ! 2) = 432666 * Millisecond
   \<and> map StartTime (DiscTracks discThree) \<noteq> [0, 210000 * Millisecond, 432667 * Millisecond]
   \<and> map EndTime (DiscTracks discThree) \<noteq> [210000 * Millisecond, 432667 * Millisecond, 0]"
  using process_three by (simp add: discThree_def Millisecond_def)




subsection \<open>Guest performers\<close>

text \<open>What a match of the guest pattern looks like.\<close>

lemma run_plus_sym:
  "(s1, c1) \<in> set (run (Plus (Sym P)) s c) \<Longrightarrow> c1 = c \<and> (\<exists>m. m \<noteq> [] \<and> s = m @ s1)"
proof (induction s arbitrary: s1 c1)
  case Nil
  have "run (Plus (Sym P)) [] c = []"
    by (subst run.simps(5)) (simp del: run.simps add: run.simps(1))
  with Nil show ?case by (simp del: run.simps)
next
  case (Cons x xs)
  show ?case
  proof (cases "P x")
    case True
    have "run (Plus (Sym P)) (x # xs) c = run (Plus (Sym P)) xs c @ [(xs, c)]"
      using True by (subst run.simps(5)) (simp del: run.simps add: run.simps(1))
    with Cons.prems have "(s1, c1) \<in> set (run (Plus (Sym P)) xs c) \<or> (s1, c1) = (xs, c)"
      by (auto simp del: run.simps)
    then show ?thesis
    proof
      assume "(s1, c1) \<in> set (run (Plus (Sym P)) xs c)"
      from Cons.IH [OF this] obtain m where "c1 = c" "m \<noteq> []" "xs = m @ s1"
        by blast
      then have "x # xs = (x # m) @ s1"
        by simp
      with \<open>c1 = c\<close> show ?thesis
        by blast
    next
      assume "(s1, c1) = (xs, c)"
      then have "x # xs = [x] @ s1" "c1 = c"
        by simp_all
      then show ?thesis
        by blast
    qed
  next
    case False
    have "run (Plus (Sym P)) (x # xs) c = []"
      using False by (subst run.simps(5)) (simp del: run.simps add: run.simps(1))
    with Cons.prems show ?thesis by (simp del: run.simps)
  qed
qed

lemma run_group_plus:
  assumes "(s1, c1) \<in> set (run (Grp n (Plus (Sym P))) s c)"
  shows "\<exists>m. m \<noteq> [] \<and> s = m @ s1 \<and> c1 = (n, m) # c"
proof -
  from assms obtain c0 where "(s1, c0) \<in> set (run (Plus (Sym P)) s c)"
    and c1: "c1 = (n, take (length s - length s1) s) # c0"
    by (auto simp del: run.simps simp: run.simps(6))
  from run_plus_sym [OF this(1)] obtain m where "c0 = c" "m \<noteq> []" "s = m @ s1"
    by blast
  with c1 show ?thesis
    by auto
qed

lemma run_alt_str:
  assumes "(s1, c1) \<in> set (run (Alt (Str a) (Str b)) s c)"
  shows "c1 = c \<and> (\<exists>w\<in>{a, b}. s = w @ s1)"
  using assms
  by (auto simp del: run.simps simp: run.simps(2,4) split: if_splits)
     (metis append_take_drop_id)+

lemma run_reFt:
  assumes "(rest, c) \<in> set (run reFt s [])"
  shows "\<exists>name sep marker guests close.
           s = name @ sep @ marker @ guests @ close @ rest
           \<and> name \<noteq> [] \<and> guests \<noteq> []
           \<and> sep \<in> {'' '', fwOpen} \<and> marker \<in> {yu, ''feat.''} \<and> close \<in> {fwClose, '')''}
           \<and> c = [(2, guests), (1, name)]"
proof -
  from assms obtain s1 c1 s2 c2 s3 c3 s4 c4 where
    g1: "(s1, c1) \<in> set (run (Grp 1 (Plus dot)) s [])"
    and a1: "(s2, c2) \<in> set (run (Alt (Str '' '') (Str fwOpen)) s1 c1)"
    and a2: "(s3, c3) \<in> set (run (Alt (Str yu) (Str ''feat.'')) s2 c2)"
    and g2: "(s4, c4) \<in> set (run (Grp 2 (Plus dot)) s3 c3)"
    and a3: "(rest, c) \<in> set (run (Alt (Str fwClose) (Str '')'')) s4 c4)"
    unfolding reFt_def by (auto simp del: run.simps simp: run.simps(3))
  from run_group_plus [OF g1 [unfolded dot_def]]
  obtain name where n: "name \<noteq> []" "s = name @ s1" "c1 = [(1, name)]"
    by blast
  from run_alt_str [OF a1] obtain sep where s: "c2 = c1" "sep \<in> {'' '', fwOpen}" "s1 = sep @ s2"
    by blast
  from run_alt_str [OF a2] obtain marker where
    m: "c3 = c2" "marker \<in> {yu, ''feat.''}" "s2 = marker @ s3"
    by blast
  from run_group_plus [OF g2 [unfolded dot_def]]
  obtain guests where g: "guests \<noteq> []" "s3 = guests @ s4" "c4 = (2, guests) # c3"
    by blast
  from run_alt_str [OF a3] obtain close where
    c: "c = c4" "close \<in> {fwClose, '')''}" "s4 = close @ rest"
    by blast
  show ?thesis
    using n s m g c by (intro exI [of _ name] exI [of _ sep] exI [of _ marker]
        exI [of _ guests] exI [of _ close]) simp
qed

lemma findFrom_run:
  "findFrom r s = Some (s0, s', c) \<Longrightarrow> (\<exists>pre. s = pre @ s0) \<and> (s', c) \<in> set (run r s0 [])"
proof (induction s)
  case Nil
  then show ?case
    by (auto split: list.splits)
next
  case (Cons x xs)
  show ?case
  proof (cases "run r (x # xs) []")
    case Nil
    with Cons.prems have "findFrom r xs = Some (s0, s', c)"
      by simp
    from Cons.IH [OF this] obtain pre where "xs = pre @ s0" "(s', c) \<in> set (run r s0 [])"
      by blast
    then have "x # xs = (x # pre) @ s0"
      by simp
    with \<open>(s', c) \<in> set (run r s0 [])\<close> show ?thesis
      by blast
  next
    case (Cons a list)
    with Cons.prems have "s0 = x # xs" "a = (s', c)"
      by (auto split: prod.splits)
    with Cons show ?thesis
      by (auto intro: exI [of _ "[]"])
  qed
qed

lemma FindStringSubmatch_reFt:
  assumes "FindStringSubmatch reFt 2 title \<noteq> []"
  shows "\<exists>pre name sep marker guests close post.
           title = pre @ name @ sep @ marker @ guests @ close @ post
           \<and> name \<noteq> [] \<and> guests \<noteq> []
           \<and> sep \<in> {'' '', fwOpen} \<and> marker \<in> {yu, ''feat.''} \<and> close \<in> {fwClose, '')''}
           \<and> FindStringSubmatch reFt 2 title
               = [name @ sep @ marker @ guests @ close, name, guests]"
proof -
  have "findFrom reFt title \<noteq> None"
    using assms unfolding FindStringSubmatch_def by (cases "findFrom reFt title") simp_all
  then obtain s0 s' c where f: "findFrom reFt title = Some (s0, s', c)"
    by (cases "findFrom reFt title") auto
  from findFrom_run [OF f] obtain pre where p: "title = pre @ s0"
    and r: "(s', c) \<in> set (run reFt s0 [])"
    by blast
  from run_reFt [OF r] obtain name sep marker guests close where
    d: "s0 = name @ sep @ marker @ guests @ close @ s'" "name \<noteq> []" "guests \<noteq> []"
      "sep \<in> {'' '', fwOpen}" "marker \<in> {yu, ''feat.''}" "close \<in> {fwClose, '')''}"
      "c = [(2, guests), (1, name)]"
    by blast
  have up: "[1..<Suc 2] = [1, 2]"
    by (simp add: upt_rec)
  have whole: "take (length s0 - length s') s0 = name @ sep @ marker @ guests @ close"
    unfolding d(1) by simp
  have caps: "map (\<lambda>i. case map_of c i of None \<Rightarrow> [] | Some t \<Rightarrow> t) [1, 2] = [name, guests]"
    unfolding d(7) by simp
  have fss: "FindStringSubmatch reFt 2 title
             = [name @ sep @ marker @ guests @ close, name, guests]"
    by (simp only: FindStringSubmatch_def f option.case prod.case up whole caps)
  have t: "title = pre @ name @ sep @ marker @ guests @ close @ s'"
    unfolding p d(1) ..
  from t d(2-6) fss show ?thesis
    by blast
qed

lemma song_spaced_marker: "Contains songTitleSpaced guestMarker1"
  unfolding songTitleSpaced_def guestMarker1_def fwOpen_def yu_def heChang_def fwClose_def
  by code_simp

lemma song_spaced_match:
  "FindStringSubmatch reFt 2 songTitleSpaced = [songTitleSpaced, ''Song '', ''Guest'' @ heChang]"
  unfolding songTitleSpaced_def by code_simp

lemma song_trim: "TrimSpace ''Song '' = ''Song''"
  by code_simp

lemma song_no_marker:
  "\<not> Contains songTitle guestMarker1" "\<not> Contains songTitle guestMarker2"
  unfolding songTitle_def guestMarker1_def guestMarker2_def fwOpen_def yu_def heChang_def
    fwClose_def
  by code_simp+

lemma makeTrack_no_marker:
  assumes "\<not> Contains (TradToSim env (Title cueTrack)) guestMarker1"
      and "\<not> Contains (TradToSim env (Title cueTrack)) guestMarker2"
  shows "Title (makeTrack env album cueTrack nxt) = TradToSim env (Title cueTrack)
         \<and> Artist (makeTrack env album cueTrack nxt) = AlbumArtistName album"
  using assms
  by (simp add: makeTrack_def Let_def zeroTrack_def split: option.split)

text \<open>
  When one of the two markers is found in the normalised title and the guest pattern
  matches it, the title has the form: some text, a space or a full-width opening bracket,
  the word U+4E0E or \<open>feat.\<close>, the guests, and a closing bracket. The track's title becomes
  the first group with white space trimmed, and its artist becomes the album artist, a
  comma and a space, and the normalised second group. The title \<open>Song\<close>, a space, and the
  bracketed clause is an example.
\<close>

lemma makeTrack_marked_match:
  assumes "Contains (TradToSim env (Title cueTrack)) guestMarker1
           \<or> Contains (TradToSim env (Title cueTrack)) guestMarker2"
      and "FindStringSubmatch reFt 2 (TradToSim env (Title cueTrack)) \<noteq> []"
  shows "\<exists>pre name sep marker guests close post.
           TradToSim env (Title cueTrack) = pre @ name @ sep @ marker @ guests @ close @ post
           \<and> name \<noteq> [] \<and> guests \<noteq> []
           \<and> sep \<in> {'' '', fwOpen} \<and> marker \<in> {yu, ''feat.''} \<and> close \<in> {fwClose, '')''}
           \<and> FindStringSubmatch reFt 2 (TradToSim env (Title cueTrack))
               = [name @ sep @ marker @ guests @ close, name, guests]
           \<and> Title (makeTrack env album cueTrack nxt) = TrimSpace name
           \<and> Artist (makeTrack env album cueTrack nxt)
               = AlbumArtistName album @ '', '' @ TradToSim env guests"
proof -
  from FindStringSubmatch_reFt [OF assms(2)]
  obtain pre name sep marker guests close post where
    d: "TradToSim env (Title cueTrack) = pre @ name @ sep @ marker @ guests @ close @ post"
      "name \<noteq> []" "guests \<noteq> []"
      "sep \<in> {'' '', fwOpen}" "marker \<in> {yu, ''feat.''}" "close \<in> {fwClose, '')''}"
      "FindStringSubmatch reFt 2 (TradToSim env (Title cueTrack))
       = [name @ sep @ marker @ guests @ close, name, guests]"
    by blast
  have "Title (makeTrack env album cueTrack nxt) = TrimSpace name
        \<and> Artist (makeTrack env album cueTrack nxt)
            = AlbumArtistName album @ '', '' @ TradToSim env guests"
    using assms(1) d(7)
    by (simp add: makeTrack_def Let_def zeroTrack_def split: option.split)
  with d show ?thesis
    by blast
qed

lemma makeTrack_spaced_example:
  "Contains songTitleSpaced guestMarker1
   \<and> FindStringSubmatch reFt 2 songTitleSpaced = [songTitleSpaced, ''Song '', ''Guest'' @ heChang]
   \<and> Title (makeTrack (demoEnv []) demoAlbum (zeroTrack\<lparr>Title := songTitleSpaced\<rparr>) None)
       = ''Song''
   \<and> Artist (makeTrack (demoEnv []) demoAlbum (zeroTrack\<lparr>Title := songTitleSpaced\<rparr>) None)
       = ''Main, Guest'' @ heChang"
proof -
  have t: "TradToSim (demoEnv []) (Title (zeroTrack\<lparr>Title := songTitleSpaced\<rparr>)) = songTitleSpaced"
    by (simp add: demoEnv_def)
  have s: "TradToSim (demoEnv []) x = x" for x
    by (simp add: demoEnv_def)
  have m: "Contains (TradToSim (demoEnv []) (Title (zeroTrack\<lparr>Title := songTitleSpaced\<rparr>)))
             guestMarker1
           \<or> Contains (TradToSim (demoEnv []) (Title (zeroTrack\<lparr>Title := songTitleSpaced\<rparr>)))
             guestMarker2"
    unfolding t using song_spaced_marker by simp
  have f: "FindStringSubmatch reFt 2
             (TradToSim (demoEnv []) (Title (zeroTrack\<lparr>Title := songTitleSpaced\<rparr>))) \<noteq> []"
    unfolding t song_spaced_match by simp
  from makeTrack_marked_match [OF m f, of demoAlbum None]
  obtain whole name guests where
    "FindStringSubmatch reFt 2 songTitleSpaced = [whole, name, guests]"
    "Title (makeTrack (demoEnv []) demoAlbum (zeroTrack\<lparr>Title := songTitleSpaced\<rparr>) None)
     = TrimSpace name"
    "Artist (makeTrack (demoEnv []) demoAlbum (zeroTrack\<lparr>Title := songTitleSpaced\<rparr>) None)
     = AlbumArtistName demoAlbum @ '', '' @ guests"
    by (auto simp: s)
  then show ?thesis
    using song_spaced_marker song_spaced_match song_trim by (simp add: demoAlbum_def)
qed

text \<open>The pattern applied to the two titles that have no space before the bracket.\<close>

lemma song_match:
  "FindStringSubmatch reFt 2 songTitle = [songTitle, ''Song'', ''Guest'' @ heChang]"
  unfolding songTitle_def by code_simp

lemma comment_match:
  "FindStringSubmatch reFt 2 commentTitle = [commentTitle, benXiaoHai, keWu @ heChang]"
  unfolding commentTitle_def by code_simp

lemma comment_no_marker:
  "\<not> Contains commentTitle guestMarker1" "\<not> Contains commentTitle guestMarker2"
  unfolding commentTitle_def guestMarker1_def guestMarker2_def fwOpen_def yu_def heChang_def
    fwClose_def benXiaoHai_def keWu_def
  by code_simp+

text \<open>
  Claim C5. The title of the scenario is \<open>Song\<close> followed at once by the bracketed guest
  clause, with album artist \<open>Main\<close>; the clause should be stripped from the title and the
  guests added to the artist. The guest pattern of \<open>processCueFile\<close> does match this title,
  with \<open>Song\<close> as its first group and \<open>Guest\<close> followed by \<open>heChang\<close> as its second. But
  the pattern is never tried: both markers that \<open>processCueFile\<close> looks for before it
  start with a space, and the title has none before its bracket. So the title stays whole
  and the artist stays \<open>Main\<close>. The same happens to the title that the comment above the
  pattern gives as its example.
\<close>

theorem guest_clause_not_split:
  "\<not> Contains songTitle guestMarker1 \<and> \<not> Contains songTitle guestMarker2
   \<and> FindStringSubmatch reFt 2 songTitle = [songTitle, ''Song'', ''Guest'' @ heChang]
   \<and> Title (makeTrack (demoEnv []) demoAlbum (zeroTrack\<lparr>Title := songTitle\<rparr>) None) = songTitle
   \<and> Artist (makeTrack (demoEnv []) demoAlbum (zeroTrack\<lparr>Title := songTitle\<rparr>) None) = ''Main''
   \<and> \<not> Contains commentTitle guestMarker1 \<and> \<not> Contains commentTitle guestMarker2
   \<and> FindStringSubmatch reFt 2 commentTitle = [commentTitle, benXiaoHai, keWu @ heChang]
   \<and> Title (makeTrack (demoEnv []) demoAlbum (zeroTrack\<lparr>Title := commentTitle\<rparr>) None)
       = commentTitle
   \<and> Artist (makeTrack (demoEnv []) demoAlbum (zeroTrack\<lparr>Title := commentTitle\<rparr>) None)
       = ''Main''"
proof -
  have t: "TradToSim (demoEnv []) (Title (zeroTrack\<lparr>Title := x\<rparr>)) = x" for x
    by (simp add: demoEnv_def)
  have a: "Title (makeTrack (demoEnv []) demoAlbum (zeroTrack\<lparr>Title := songTitle\<rparr>) None)
             = songTitle
           \<and> Artist (makeTrack (demoEnv []) demoAlbum (zeroTrack\<lparr>Title := songTitle\<rparr>) None)
               = ''Main''"
    using makeTrack_no_marker [of "demoEnv []" "zeroTrack\<lparr>Title := songTitle\<rparr>" demoAlbum None]
      song_no_marker
    unfolding t by (simp add: demoAlbum_def)
  have b: "Title (makeTrack (demoEnv []) demoAlbum (zeroTrack\<lparr>Title := commentTitle\<rparr>) None)
             = commentTitle
           \<and> Artist (makeTrack (demoEnv []) demoAlbum (zeroTrack\<lparr>Title := commentTitle\<rparr>) None)
               = ''Main''"
    using makeTrack_no_marker [of "demoEnv []" "zeroTrack\<lparr>Title := commentTitle\<rparr>" demoAlbum None]
      comment_no_marker
    unfolding t by (simp add: demoAlbum_def)
  show ?thesis
    using a b song_no_marker comment_no_marker song_match comment_match by simp
qed

section \<open>Properties of the stability detector\<close>

subsection \<open>One listing\<close>

lemma noteFile_current:
  "currentFileStates (noteFile now q prev p info st) = (currentFileStates st)(p \<mapsto> info)"
  by (simp add: noteFile_def Let_def split: option.split)

lemma noteFile_hasRelevant: "hasRelevantFiles (noteFile now q prev p info st)"
  by (simp add: noteFile_def Let_def split: option.split)

lemma noteFile_fq_other:
  "p \<noteq> f \<Longrightarrow> map_of (fileQuietTimes (noteFile now q prev p info st)) f
                = map_of (fileQuietTimes st) f"
  by (simp add: noteFile_def Let_def update_conv' split: option.split)

lemma noteFile_fq_changed:
  "fileChanged prev p info \<Longrightarrow> map_of (fileQuietTimes (noteFile now q prev p info st)) p = Some now"
  by (simp add: noteFile_def Let_def update_conv')

lemma noteFile_fq_bounds:
  assumes "map_of (fileQuietTimes st) f = Some t" "lo \<le> t" "t \<le> hi" "lo \<le> now" "now \<le> hi"
  shows "\<exists>t'. map_of (fileQuietTimes (noteFile now q prev p info st)) f = Some t'
              \<and> lo \<le> t' \<and> t' \<le> hi"
proof (cases "p = f")
  case True
  then show ?thesis
    using assms by (auto simp: noteFile_def Let_def update_conv' split: option.split)
next
  case False
  then show ?thesis
    using assms by (simp add: noteFile_fq_other)
qed

lemma scanEntries_fq_bounds:
  assumes "map_of (fileQuietTimes st) f = Some t" "lo \<le> t" "t \<le> hi" "lo \<le> now" "now \<le> hi"
  shows "\<exists>t'. map_of (fileQuietTimes (scanEntries relevant dir now q prev es st)) f = Some t'
              \<and> lo \<le> t' \<and> t' \<le> hi"
  using assms
proof (induction es arbitrary: st t)
  case Nil
  then show ?case by simp
next
  case (Cons e es)
  show ?case
  proof (cases "\<not> IsDir e \<and> (\<exists>info. Info e = InfoOK info) \<and> relevant (Join dir (Name e)) (Name e)")
    case True
    then obtain info where info: "Info e = InfoOK info"
      by blast
    from noteFile_fq_bounds [OF Cons.prems(1-5)]
    obtain t1 where t1: "map_of (fileQuietTimes (noteFile now q prev (Join dir (Name e)) info st)) f
                          = Some t1" "lo \<le> t1" "t1 \<le> hi"
      by blast
    from Cons.IH [OF t1 Cons.prems(4,5)] show ?thesis
      using True info by simp
  next
    case False
    then show ?thesis
      using Cons.IH [OF Cons.prems] Cons.prems
      by (cases "Info e") auto
  qed
qed

lemma scanEntries_changed:
  assumes "changedIn relevant dir prev es f"
  shows "map_of (fileQuietTimes (scanEntries relevant dir now q prev es st)) f = Some now"
  using assms
proof (induction es arbitrary: st)
  case Nil
  then show ?case by simp
next
  case (Cons e es)
  show ?case
  proof (cases "IsDir e")
    case True
    then show ?thesis
      using Cons by simp
  next
    case False
    show ?thesis
    proof (cases "Info e")
      case (InfoOK info)
      show ?thesis
      proof (cases "relevant (Join dir (Name e)) (Name e) \<and> Join dir (Name e) = f
                    \<and> fileChanged prev f info")
        case True
        then have "map_of (fileQuietTimes (noteFile now q prev f info st)) f = Some now"
          by (simp add: noteFile_fq_changed)
        from scanEntries_fq_bounds [where lo = now and hi = now and now = now
            and relevant = relevant and dir = dir and q = q and prev = prev and es = es, OF this]
        have "map_of (fileQuietTimes (scanEntries relevant dir now q prev es
                 (noteFile now q prev f info st))) f = Some now"
          by auto
        moreover have "scanEntries relevant dir now q prev (e # es) st
              = scanEntries relevant dir now q prev es (noteFile now q prev f info st)"
          using True False InfoOK by auto
        ultimately show ?thesis
          by metis
      next
        case no: False
        then have "changedIn relevant dir prev es f"
          using Cons.prems False InfoOK by auto
        then show ?thesis
          using Cons.IH False InfoOK by simp
      qed
    qed (use Cons False in auto)
  qed
qed

lemma scanEntries_keeps_seen:
  assumes "currentFileStates st f \<noteq> None" "hasRelevantFiles st"
  shows "currentFileStates (scanEntries relevant dir now q prev es st) f \<noteq> None
         \<and> hasRelevantFiles (scanEntries relevant dir now q prev es st)"
  using assms
proof (induction es arbitrary: st)
  case Nil
  then show ?case by simp
next
  case (Cons e es)
  have n: "currentFileStates (noteFile now q prev p info st) f \<noteq> None
           \<and> hasRelevantFiles (noteFile now q prev p info st)" for p info
    using Cons.prems by (simp add: noteFile_current noteFile_hasRelevant)
  show ?case
    using Cons.IH [OF Cons.prems] Cons.IH n Cons.prems
    by (cases "Info e") auto
qed

lemma scanEntries_seen:
  assumes "seenIn relevant dir es f"
  shows "currentFileStates (scanEntries relevant dir now q prev es st) f \<noteq> None
         \<and> hasRelevantFiles (scanEntries relevant dir now q prev es st)"
  using assms
proof (induction es arbitrary: st)
  case Nil
  then show ?case by simp
next
  case (Cons e es)
  show ?case
  proof (cases "IsDir e")
    case True
    then show ?thesis
      using Cons by simp
  next
    case False
    show ?thesis
    proof (cases "Info e")
      case (InfoOK info)
      show ?thesis
      proof (cases "relevant (Join dir (Name e)) (Name e) \<and> Join dir (Name e) = f")
        case True
        have "currentFileStates (noteFile now q prev f info st) f \<noteq> None"
          "hasRelevantFiles (noteFile now q prev f info st)"
          by (simp_all add: noteFile_current noteFile_hasRelevant)
        from scanEntries_keeps_seen [OF this]
        have "currentFileStates (scanEntries relevant dir now q prev es
                 (noteFile now q prev f info st)) f \<noteq> None
              \<and> hasRelevantFiles (scanEntries relevant dir now q prev es
                 (noteFile now q prev f info st))" .
        moreover have "scanEntries relevant dir now q prev (e # es) st
              = scanEntries relevant dir now q prev es (noteFile now q prev f info st)"
          using True False InfoOK by auto
        ultimately show ?thesis
          by metis
      next
        case no: False
        then have "seenIn relevant dir es f"
          using Cons.prems False InfoOK by auto
        then show ?thesis
          using Cons.IH False InfoOK by simp
      qed
    qed (use Cons False in auto)
  qed
qed

lemma timeSub_le: "u \<le> t \<Longrightarrow> timeSub t u \<le> t - u"
  by (simp add: timeSub_def minInt64_def)

lemma pollOnce_stable:
  assumes "pollOnce relevant dir q prev fq now es = Returned True"
      and "seenIn relevant dir es f"
      and "map_of fq f = Some t" "lo \<le> t" "t \<le> now" "lo \<le> now"
  shows "lo + q \<le> now"
proof -
  define st where "st = scanEntries relevant dir now q prev es
     \<lparr>allRelevantFilesQuiet = True, hasRelevantFiles = False,
      currentFileStates = Map.empty, fileQuietTimes = fq\<rparr>"
  have seen: "currentFileStates st f \<noteq> None" "hasRelevantFiles st"
    using scanEntries_seen [OF assms(2)] by (simp_all add: st_def)
  obtain t' where t': "map_of (fileQuietTimes st) f = Some t'" "lo \<le> t'" "t' \<le> now"
    using scanEntries_fq_bounds [where f = f and t = t and lo = lo and hi = now and now = now
        and relevant = relevant and dir = dir and q = q and prev = prev and es = es
        and st = "\<lparr>allRelevantFilesQuiet = True, hasRelevantFiles = False,
                   currentFileStates = Map.empty, fileQuietTimes = fq\<rparr>"] assms(3-6)
    unfolding st_def by auto
  have "allCurrentlyQuiet now q st"
    using assms(1) seen by (auto simp: pollOnce_def Let_def st_def [symmetric] split: if_splits)
  moreover have "(f, t') \<in> set (fileQuietTimes st)"
    using t'(1) by (rule map_of_SomeD)
  ultimately have "\<not> timeSub now t' < q"
    using seen(1) by (auto simp: allCurrentlyQuiet_def list_all_iff)
  then have "q \<le> now - t'"
    using timeSub_le [OF t'(3)] by linarith
  then show ?thesis
    using t'(2) by linarith
qed

lemma pollOnce_running_fq:
  assumes "pollOnce relevant dir q prev fq now es = Running prev' fq'"
      and "map_of fq f = Some t" "lo \<le> t" "t \<le> hi" "lo \<le> now" "now \<le> hi"
  shows "\<exists>t'. map_of fq' f = Some t' \<and> lo \<le> t' \<and> t' \<le> hi"
proof -
  have "fq' = fileQuietTimes (scanEntries relevant dir now q prev es
     \<lparr>allRelevantFilesQuiet = True, hasRelevantFiles = False,
      currentFileStates = Map.empty, fileQuietTimes = fq\<rparr>)"
    using assms(1) by (auto simp: pollOnce_def Let_def split: if_splits)
  then show ?thesis
    using scanEntries_fq_bounds [where f = f and t = t and lo = lo and hi = hi and now = now
        and relevant = relevant and dir = dir and q = q and prev = prev and es = es
        and st = "\<lparr>allRelevantFilesQuiet = True, hasRelevantFiles = False,
                   currentFileStates = Map.empty, fileQuietTimes = fq\<rparr>"] assms(2-6)
    by auto
qed

lemma pollOnce_running_changed:
  assumes "pollOnce relevant dir q prev fq now es = Running prev' fq'"
      and "changedIn relevant dir prev es f"
  shows "map_of fq' f = Some now"
proof -
  have "fq' = fileQuietTimes (scanEntries relevant dir now q prev es
     \<lparr>allRelevantFilesQuiet = True, hasRelevantFiles = False,
      currentFileStates = Map.empty, fileQuietTimes = fq\<rparr>)"
    using assms(1) by (auto simp: pollOnce_def Let_def split: if_splits)
  then show ?thesis
    using scanEntries_changed [OF assms(2)] by simp
qed

lemma noteFile_not_quiet:
  "\<not> allRelevantFilesQuiet st \<Longrightarrow> \<not> allRelevantFilesQuiet (noteFile now q prev p info st)"
  by (simp add: noteFile_def Let_def split: option.split)

lemma noteFile_changed_not_quiet:
  "fileChanged prev p info \<Longrightarrow> \<not> allRelevantFilesQuiet (noteFile now q prev p info st)"
  by (simp add: noteFile_def Let_def)

lemma scanEntries_keeps_unquiet:
  assumes "\<not> allRelevantFilesQuiet st" "hasRelevantFiles st"
  shows "\<not> allRelevantFilesQuiet (scanEntries relevant dir now q prev es st)
         \<and> hasRelevantFiles (scanEntries relevant dir now q prev es st)"
  using assms
proof (induction es arbitrary: st)
  case Nil
  then show ?case by simp
next
  case (Cons e es)
  have n: "\<not> allRelevantFilesQuiet (noteFile now q prev p info st)
           \<and> hasRelevantFiles (noteFile now q prev p info st)" for p info
    using Cons.prems by (simp add: noteFile_not_quiet noteFile_hasRelevant)
  show ?case
    using Cons.IH [OF Cons.prems] Cons.IH n Cons.prems
    by (cases "Info e") auto
qed

lemma scanEntries_changed_unquiet:
  assumes "changedIn relevant dir prev es f"
  shows "\<not> allRelevantFilesQuiet (scanEntries relevant dir now q prev es st)
         \<and> hasRelevantFiles (scanEntries relevant dir now q prev es st)"
  using assms
proof (induction es arbitrary: st)
  case Nil
  then show ?case by simp
next
  case (Cons e es)
  show ?case
  proof (cases "IsDir e")
    case True
    then show ?thesis
      using Cons by simp
  next
    case False
    show ?thesis
    proof (cases "Info e")
      case (InfoOK info)
      show ?thesis
      proof (cases "relevant (Join dir (Name e)) (Name e) \<and> Join dir (Name e) = f
                    \<and> fileChanged prev f info")
        case True
        have "\<not> allRelevantFilesQuiet (noteFile now q prev f info st)"
          "hasRelevantFiles (noteFile now q prev f info st)"
          using True by (simp_all add: noteFile_changed_not_quiet noteFile_hasRelevant)
        from scanEntries_keeps_unquiet [OF this]
        have "\<not> allRelevantFilesQuiet (scanEntries relevant dir now q prev es
                 (noteFile now q prev f info st))
              \<and> hasRelevantFiles (scanEntries relevant dir now q prev es
                 (noteFile now q prev f info st))" .
        moreover have "scanEntries relevant dir now q prev (e # es) st
              = scanEntries relevant dir now q prev es (noteFile now q prev f info st)"
          using True False InfoOK by auto
        ultimately show ?thesis
          by metis
      next
        case no: False
        then have "changedIn relevant dir prev es f"
          using Cons.prems False InfoOK by auto
        then show ?thesis
          using Cons.IH False InfoOK by simp
      qed
    qed (use Cons False in auto)
  qed
qed

lemma pollOnce_changed_running:
  assumes "changedIn relevant dir prev es f"
  shows "pollOnce relevant dir q prev fq now es \<noteq> Returned b"
  using scanEntries_changed_unquiet [OF assms]
  by (simp add: pollOnce_def Let_def)

lemma changedIn_seenIn: "changedIn relevant dir prev es f \<Longrightarrow> seenIn relevant dir es f"
  by (induction es) (auto split: if_splits InfoResult.splits)

lemma waitLoop_append:
  "waitLoop relevant retry dir q maxWait start prev fq (xs @ ys)
   = (case waitLoop relevant retry dir q maxWait start prev fq xs of
        Returned b \<Rightarrow> Returned b
      | Running prev' fq' \<Rightarrow> waitLoop relevant retry dir q maxWait start prev' fq' ys)"
proof (induction xs arbitrary: prev fq)
  case Nil
  then show ?case by simp
next
  case (Cons p ps)
  show ?case
    using Cons.IH
    by (cases retry; cases "listing p") (simp_all split: WaitResult.split)
qed

lemma waitLoop_running_fq:
  assumes "waitLoop relevant retry dir q maxWait start prev fq ps = Running prev' fq'"
      and "map_of fq f = Some t" "lo \<le> t" "t \<le> hi"
      and "\<forall>p\<in>set ps. lo \<le> checkNow p \<and> checkNow p \<le> hi"
  shows "\<exists>t'. map_of fq' f = Some t' \<and> lo \<le> t' \<and> t' \<le> hi"
  using assms
proof (induction ps arbitrary: prev fq t)
  case Nil
  then show ?case by simp
next
  case (Cons p ps)
  from Cons.prems(1) have g: "timeSub (guardNow p) start < maxWait"
    by (auto split: if_splits)
  show ?case
  proof (cases "listing p")
    case None
    then have "waitLoop relevant retry dir q maxWait start prev fq ps = Running prev' fq'"
      using Cons.prems(1) g by (auto split: if_splits)
    from Cons.IH [OF this Cons.prems(2-4)] Cons.prems(5) show ?thesis
      by simp
  next
    case (Some es)
    then obtain prev1 fq1 where
      r: "pollOnce relevant dir q prev fq (checkNow p) es = Running prev1 fq1"
      and l: "waitLoop relevant retry dir q maxWait start prev1 fq1 ps = Running prev' fq'"
      using Cons.prems(1) g by (auto split: WaitResult.splits)
    from pollOnce_running_fq [OF r Cons.prems(2-4)] Cons.prems(5)
    obtain t1 where "map_of fq1 f = Some t1" "lo \<le> t1" "t1 \<le> hi"
      by auto
    from Cons.IH [OF l this] Cons.prems(5) show ?thesis
      by simp
  qed
qed



subsection \<open>Concrete runs\<close>

lemma rel_wav: "relevantMain (Join dirA ''a.wav'') ''a.wav''"
  unfolding dirA_def by code_simp

lemmas wait_defs = pollAt_def wavEntry_def pollOnce_def noteFile_def fileChanged_def
  allCurrentlyQuiet_def timeSub_def Second_def stabilityQuietDuration_def
  stabilityMaxWait_def minInt64_def maxInt64_def demoConfig_def

lemma run_vanished:
  "waitForFilesStability dirA stabilityCheckInterval stabilityQuietDuration stabilityMaxWait 0
     [pollAt 0 (Some [wavEntry]), pollAt 5 (Some [])] = Returned True"
  by (simp add: waitForFilesStability_def wait_defs rel_wav)

lemma run_quiet:
  "waitLoop relevantMain False dirA stabilityQuietDuration stabilityMaxWait 0 Map.empty []
     [pollAt 0 (Some [wavEntry]), pollAt 30 (Some [wavEntry]), pollAt 60 (Some [wavEntry])]
   = Returned True"
  by (simp add: wait_defs rel_wav)

lemma run_not_yet:
  "\<exists>prev fq. waitLoop relevantMain False dirA stabilityQuietDuration stabilityMaxWait 0
     Map.empty [] [pollAt 0 (Some [wavEntry]), pollAt 30 (Some [wavEntry])] = Running prev fq"
  by (simp add: wait_defs rel_wav)

lemma wav_changed: "changedIn relevantMain dirA Map.empty [wavEntry] (Join dirA ''a.wav'')"
  using rel_wav by (simp add: wavEntry_def fileChanged_def)

lemma wav_seen: "seenIn relevantMain dirA [wavEntry] (Join dirA ''a.wav'')"
  using rel_wav by (simp add: wavEntry_def)


lemma run_empty_main:
  "waitForFilesStability dirA stabilityCheckInterval stabilityQuietDuration stabilityMaxWait 0
     [pollAt 0 (Some [])] = Returned True"
  "waitForFilesStability dirA stabilityCheckInterval stabilityQuietDuration stabilityMaxWait 0
     [pollAt 5 (Some [])] = Returned True"
  by (simp_all add: waitForFilesStability_def wait_defs)

lemma run_empty_sched:
  "TaskScheduler_waitForFilesStability demoConfig dirA 0 [pollAt 0 (Some [])] = Returned True"
  "TaskScheduler_waitForFilesStability demoConfig dirA 0 [pollAt 5 (Some [])] = Returned True"
  by (simp_all add: TaskScheduler_waitForFilesStability_def wait_defs)

subsection \<open>Claims about the stability detector\<close>

text \<open>
  Claim C6. Let a relevant file be recorded as changed (new, or with another size or
  modification time) at a poll taken at time \<open>T\<close>, after any run of earlier polls. The
  directory is not declared stable at that poll. And when a later poll declares it stable
  while the file is still listed as a relevant file with readable metadata, that poll is
  taken at \<open>T + quietDuration\<close> or after, whatever the times between the polls, as long as
  the clock does not run backwards. Below, the polls from the change on are \<open>pk # later\<close>,
  the last of them is the one that declares the directory stable, and the loop is still
  running before it. The statement is about the loop both copies of the detector run,
  from any state of their two maps.
\<close>

theorem stable_after_quiet:
  assumes pre: "waitLoop relevant retry dir quiet maxWait start prev0 fq0 pre = Running prev fq"
      and k: "listing pk = Some entriesk" "changedIn relevant dir prev entriesk f"
      and dec: "waitLoop relevant retry dir quiet maxWait start prev0 fq0
                  (pre @ butlast (pk # later)) = Running prev' fq'"
      and fin: "waitLoop relevant retry dir quiet maxWait start prev0 fq0 (pre @ pk # later)
                = Returned True"
      and j: "listing (last (pk # later)) = Some entriesj" "seenIn relevant dir entriesj f"
      and clock: "sorted (map checkNow (pk # later))"
  shows "later \<noteq> [] \<and> checkNow pk + quiet \<le> checkNow (last (pk # later))"
proof -
  have fin1: "waitLoop relevant retry dir quiet maxWait start prev fq (pk # later) = Returned True"
    using fin pre by (simp add: waitLoop_append)
  then have g: "timeSub (guardNow pk) start < maxWait"
    by (auto split: if_splits)
  have ne: "later \<noteq> []"
  proof
    assume "later = []"
    with fin1 k(1) g have "pollOnce relevant dir quiet prev fq (checkNow pk) entriesk = Returned True"
      by (auto split: WaitResult.splits)
    with pollOnce_changed_running [OF k(2)] show False
      by blast
  qed
  then obtain mid pj where later: "later = mid @ [pj]"
    by (metis rev_exhaust)
  have run: "waitLoop relevant retry dir quiet maxWait start prev0 fq0 (pre @ pk # mid)
             = Running prev' fq'"
    using dec by (simp add: later butlast_append)
  have run1: "waitLoop relevant retry dir quiet maxWait start prev fq (pk # mid) = Running prev' fq'"
    using run pre by (simp add: waitLoop_append)
  from run1 k(1) g obtain prev1 fq1 where
    r: "pollOnce relevant dir quiet prev fq (checkNow pk) entriesk = Running prev1 fq1"
    and l: "waitLoop relevant retry dir quiet maxWait start prev1 fq1 mid = Running prev' fq'"
    by (auto split: WaitResult.splits)
  have c1: "map_of fq1 f = Some (checkNow pk)"
    using pollOnce_running_changed [OF r k(2)] .
  have le: "checkNow pk \<le> checkNow pj"
    "\<forall>p\<in>set mid. checkNow pk \<le> checkNow p \<and> checkNow p \<le> checkNow pj"
    using clock by (auto simp: later sorted_append)
  obtain t' where t': "map_of fq' f = Some t'" "checkNow pk \<le> t'" "t' \<le> checkNow pj"
    using waitLoop_running_fq [OF l c1 _ le(1) le(2)] by auto
  have "waitLoop relevant retry dir quiet maxWait start prev0 fq0 ((pre @ pk # mid) @ [pj])
        = Returned True"
    using fin by (simp add: later)
  then have "waitLoop relevant retry dir quiet maxWait start prev' fq' [pj] = Returned True"
    unfolding waitLoop_append [of _ _ _ _ _ _ _ _ "pre @ pk # mid"] run by simp
  moreover have "listing pj = Some entriesj"
    using j(1) by (simp add: later)
  ultimately have "pollOnce relevant dir quiet prev' fq' (checkNow pj) entriesj = Returned True"
    by (auto split: if_splits WaitResult.splits)
  from pollOnce_stable [OF this j(2) t'(1) t'(2) t'(3) le(1)]
  have "checkNow pk + quiet \<le> checkNow pj" .
  with ne show ?thesis
    by (simp add: later)
qed


theorem stable_after_quiet_witness:
  "waitForFilesStability dirA stabilityCheckInterval stabilityQuietDuration stabilityMaxWait 0
     [pollAt 0 (Some [wavEntry]), pollAt 30 (Some [wavEntry]), pollAt 60 (Some [wavEntry])]
   = Returned True
   \<and> (\<exists>prev fq. waitForFilesStability dirA stabilityCheckInterval stabilityQuietDuration
         stabilityMaxWait 0 [pollAt 0 (Some [wavEntry]), pollAt 30 (Some [wavEntry])]
       = Running prev fq)
   \<and> changedIn relevantMain dirA Map.empty [wavEntry] (Join dirA ''a.wav'')
   \<and> seenIn relevantMain dirA [wavEntry] (Join dirA ''a.wav'')
   \<and> checkNow (pollAt 0 (Some [wavEntry])) + stabilityQuietDuration
       \<le> checkNow (pollAt 60 (Some [wavEntry]))"
proof -
  obtain prev' fq' where
    run: "waitLoop relevantMain False dirA stabilityQuietDuration stabilityMaxWait 0
            Map.empty [] [pollAt 0 (Some [wavEntry]), pollAt 30 (Some [wavEntry])]
          = Running prev' fq'"
    using run_not_yet by auto
  then have dec: "waitLoop relevantMain False dirA stabilityQuietDuration stabilityMaxWait 0
            Map.empty []
            ([] @ butlast (pollAt 0 (Some [wavEntry])
                 # [pollAt 30 (Some [wavEntry]), pollAt 60 (Some [wavEntry])]))
          = Running prev' fq'"
    by simp
  have pre: "waitLoop relevantMain False dirA stabilityQuietDuration stabilityMaxWait 0
               Map.empty [] [] = Running Map.empty []"
    by simp
  have fin: "waitLoop relevantMain False dirA stabilityQuietDuration stabilityMaxWait 0
               Map.empty []
               ([] @ pollAt 0 (Some [wavEntry])
                    # [pollAt 30 (Some [wavEntry]), pollAt 60 (Some [wavEntry])])
             = Returned True"
    using run_quiet by simp
  have k: "listing (pollAt 0 (Some [wavEntry])) = Some [wavEntry]"
    and j: "listing (last (pollAt 0 (Some [wavEntry])
                 # [pollAt 30 (Some [wavEntry]), pollAt 60 (Some [wavEntry])])) = Some [wavEntry]"
    by (simp_all add: pollAt_def)
  have clock: "sorted (map checkNow (pollAt 0 (Some [wavEntry])
                 # [pollAt 30 (Some [wavEntry]), pollAt 60 (Some [wavEntry])]))"
    by (simp add: pollAt_def Second_def)
  from stable_after_quiet [OF pre k wav_changed dec fin j wav_seen clock]
  have "checkNow (pollAt 0 (Some [wavEntry])) + stabilityQuietDuration
       \<le> checkNow (pollAt 60 (Some [wavEntry]))"
    by simp
  then show ?thesis
    using run_quiet run wav_changed wav_seen by (simp add: waitForFilesStability_def)
qed

text \<open>
  A file that is no longer listed does not hold stability back: it is skipped when the
  quiet times are checked, and a directory without relevant files is stable at once.
\<close>

lemma vanished_file_releases:
  "waitForFilesStability dirA stabilityCheckInterval stabilityQuietDuration stabilityMaxWait 0
     [pollAt 0 (Some [wavEntry]), pollAt 5 (Some [])] = Returned True
   \<and> changedIn relevantMain dirA Map.empty [wavEntry] (Join dirA ''a.wav'')
   \<and> checkNow (pollAt 5 (Some []))
       < checkNow (pollAt 0 (Some [wavEntry])) + stabilityQuietDuration"
  using run_vanished wav_changed
  by (simp add: pollAt_def Second_def stabilityQuietDuration_def)

section \<open>Properties of the scan scheduler\<close>

subsection \<open>Arming and replacing timers\<close>

lemma armed_after_stop:
  "map fst (filter (\<lambda>(t', d'). d' = d) (stopTimer t ts))
   = filter (\<lambda>x. x \<noteq> t) (map fst (filter (\<lambda>(t', d'). d' = d) ts))"
  by (induction ts) (auto simp: stopTimer_def)

lemma armedFor_triggerScan:
  "armedFor d (triggerScan d w)
   = (case map_of (pendingScans w) d of
        Some t \<Rightarrow> filter (\<lambda>x. x \<noteq> t) (armedFor d w)
      | None \<Rightarrow> armedFor d w) @ [nextTimer w]"
  by (simp add: armedFor_def triggerScan_def Let_def armed_after_stop split: option.split)

lemma pending_triggerScan: "map_of (pendingScans (triggerScan d w)) d = Some (nextTimer w)"
  by (simp add: triggerScan_def Let_def update_conv')

lemma nextTimer_triggerScan: "nextTimer (triggerScan d w) = Suc (nextTimer w)"
  by (simp add: triggerScan_def Let_def)

lemma triggerScan_registered:
  assumes "registered d w"
  shows "armedFor d (triggerScan d w) = [nextTimer w] \<and> registered d (triggerScan d w)"
proof -
  have "armedFor d (triggerScan d w) = [nextTimer w]"
    using assms unfolding armedFor_triggerScan registered_def
    by (cases "map_of (pendingScans w) d") simp_all
  then show ?thesis
    by (simp add: registered_def pending_triggerScan)
qed

text \<open>
  While the map holds the directory's only waiting timer (or none is waiting), any number
  of calls in a row leaves exactly one timer waiting for the directory: the newest.
\<close>

lemma triggerScan_burst:
  assumes "registered d w"
  shows "armedFor d ((triggerScan d ^^ Suc n) w) = [nextTimer w + n]
         \<and> registered d ((triggerScan d ^^ Suc n) w)
         \<and> nextTimer ((triggerScan d ^^ Suc n) w) = nextTimer w + Suc n"
proof (induction n)
  case 0
  show ?case
    using triggerScan_registered [OF assms] by (simp add: nextTimer_triggerScan)
next
  case (Suc n)
  have "(triggerScan d ^^ Suc (Suc n)) w = triggerScan d ((triggerScan d ^^ Suc n) w)"
    by simp
  then show ?case
    using Suc triggerScan_registered [of d "(triggerScan d ^^ Suc n) w"]
    by (simp only: nextTimer_triggerScan) simp
qed

lemma registered_init: "registered d initWorld"
  by (simp add: registered_def initWorld_def armedFor_def)

subsection \<open>A scan that reschedules itself\<close>

lemma unstable_main:
  "waitForFilesStability dirA stabilityCheckInterval stabilityQuietDuration stabilityMaxWait
     (startOverallWait envUnstable) (polls envUnstable) = Returned False"
  by (simp add: waitForFilesStability_def envUnstable_def wait_defs)

lemma unstable_sched:
  "TaskScheduler_waitForFilesStability demoConfig dirA
     (startOverallWait envUnstable) (polls envUnstable) = Returned False"
  by (simp add: TaskScheduler_waitForFilesStability_def envUnstable_def wait_defs)

lemma afterUnstable_main:
  "afterUnstable performScan =
     Some \<lparr>pendingScans = [], timers = [(1, dirA)], nextTimer = 2, ledger = [],
           calls = [CallPerformScan dirA]\<rparr>"
  by (simp add: afterUnstable_def timerFires_def triggerScan_def initWorld_def stopTimer_def
      performScan_def unstable_main AList.delete_eq)

lemma afterUnstable_sched:
  "afterUnstable (TaskScheduler_performScan demoConfig) =
     Some \<lparr>pendingScans = [], timers = [(1, dirA)], nextTimer = 2, ledger = [],
           calls = [CallPerformScan dirA]\<rparr>"
  by (simp add: afterUnstable_def timerFires_def triggerScan_def initWorld_def stopTimer_def
      TaskScheduler_performScan_def unstable_sched AList.delete_eq)

lemma afterBurst_main:
  "afterBurst performScan =
     Some \<lparr>pendingScans = [(dirA, 3)], timers = [(1, dirA), (3, dirA)], nextTimer = 4,
           ledger = [], calls = [CallPerformScan dirA]\<rparr>"
  by (simp add: afterBurst_def afterUnstable_main triggerScan_def stopTimer_def)

lemma afterBurst_sched:
  "afterBurst (TaskScheduler_performScan demoConfig) =
     Some \<lparr>pendingScans = [(dirA, 3)], timers = [(1, dirA), (3, dirA)], nextTimer = 4,
           ledger = [], calls = [CallPerformScan dirA]\<rparr>"
  by (simp add: afterBurst_def afterUnstable_sched triggerScan_def stopTimer_def)

lemma noDisc_main:
  "performScan envNoDisc dirA w
   = Some (w\<lparr>calls := calls w @ [CallPerformScan dirA]
                @ (if dirA \<in> set (ledger w) then [] else [CallScanAlbumDirectory dirA])\<rparr>)"
  using run_empty_main(1)
  by (simp add: performScan_def envNoDisc_def IsAlbumProcessed_def demoAlbum_def)

lemma noDisc_sched:
  "TaskScheduler_performScan demoConfig envNoDisc dirA w
   = Some (w\<lparr>calls := calls w @ [CallPerformScan dirA]
                @ (if dirA \<in> set (ledger w) then [] else [CallScanAlbumDirectory dirA])\<rparr>)"
  using run_empty_sched(1)
  by (simp add: TaskScheduler_performScan_def envNoDisc_def IsAlbumProcessed_def demoAlbum_def)

lemma afterFiring_main:
  "afterFiring performScan =
     Some \<lparr>pendingScans = [], timers = [], nextTimer = 4, ledger = [],
           calls = [CallPerformScan dirA,
                    CallPerformScan dirA, CallScanAlbumDirectory dirA,
                    CallPerformScan dirA, CallScanAlbumDirectory dirA]\<rparr>"
  by (simp add: afterFiring_def afterBurst_main timerFires_def stopTimer_def noDisc_main
      AList.delete_eq)

lemma afterFiring_sched:
  "afterFiring (TaskScheduler_performScan demoConfig) =
     Some \<lparr>pendingScans = [], timers = [], nextTimer = 4, ledger = [],
           calls = [CallPerformScan dirA,
                    CallPerformScan dirA, CallScanAlbumDirectory dirA,
                    CallPerformScan dirA, CallScanAlbumDirectory dirA]\<rparr>"
  by (simp add: afterFiring_def afterBurst_sched timerFires_def stopTimer_def noDisc_sched
      AList.delete_eq)

text \<open>
  Claim C8, at the input where the code departs from it. The first scan of a directory
  ends unstable and calls \<open>triggerScan\<close>, which stores the new timer 1 in the map; the
  callback of the timer that fired then deletes the directory's entry, so timer 1 waits
  without being in the map. Two further calls before timer 1 fires start timers 2 and 3
  and stop only timer 2. Timers 1 and 3 are both waiting, and when they fire the
  directory is scanned twice: the calls are the first scan, then two more. Both packages
  behave alike.
\<close>

theorem rescheduled_timer_not_replaced:
  "map_option (armedFor dirA) (afterBurst performScan) = Some [1, 3]
   \<and> map_option calls (afterFiring performScan)
       = Some [CallPerformScan dirA,
               CallPerformScan dirA, CallScanAlbumDirectory dirA,
               CallPerformScan dirA, CallScanAlbumDirectory dirA]
   \<and> map_option (armedFor dirA) (afterBurst (TaskScheduler_performScan demoConfig))
       = Some [1, 3]
   \<and> map_option calls (afterFiring (TaskScheduler_performScan demoConfig))
       = Some [CallPerformScan dirA,
               CallPerformScan dirA, CallScanAlbumDirectory dirA,
               CallPerformScan dirA, CallScanAlbumDirectory dirA]"
  by (simp add: afterBurst_main afterBurst_sched afterFiring_main afterFiring_sched
      armedFor_def)

subsection \<open>A directory listing that fails\<close>





subsection \<open>Claims about scans that pass the stability gate\<close>

lemma oneDisc_env:
  "startOverallWait (envOneDisc q p) = 0" "polls (envOneDisc q p) = [pollAt 0 (Some [])]"
  "queryFails (envOneDisc q p) = q" "processFails (envOneDisc q p) = p"
  "\<not> insertFails (envOneDisc q p)" "scanAlbum (envOneDisc q p) = (Some albumOneDisc, False)"
  "Discs albumOneDisc \<noteq> []"
  by (simp_all add: envOneDisc_def albumOneDisc_def)

text \<open>
  Claim C9. Take a scan, of either package, whose wait returned stable, for which the
  ledger did not answer "processed", and whose assembly returned an album with at least
  one disc. The scan then calls the assembler and the processor (\<open>handed\<close> is what it
  hands over), and it asks the ledger to mark the directory exactly when the processor
  reports success. When the processor reports an error the ledger is left as it was; when
  it reports success the ledger is what \<open>AddProcessedAlbum\<close> makes of it. With a ledger
  whose statements do not fail, the directory is in the ledger afterwards if and only if
  the processor reported success.
\<close>

theorem ledger_marked_iff_success:
  assumes "scan = performScan env
             \<and> waitForFilesStability dir stabilityCheckInterval stabilityQuietDuration
                 stabilityMaxWait (startOverallWait env) (polls env) = Returned True
             \<and> handed = [CallProcessAlbum album musicLibDir]
           \<or> scan = TaskScheduler_performScan cfg env
             \<and> TaskScheduler_waitForFilesStability cfg dir (startOverallWait env) (polls env)
                 = Returned True
             \<and> handed = fetchCalls album
                          @ [CallProcessAlbum (fetchAll env album) (MusicLibDir cfg)]"
      and "\<not> fst (IsAlbumProcessed (ledger w) (queryFails env) dir)"
      and "scanAlbum env = (Some album, False)" "Discs album \<noteq> []"
  shows "\<exists>w'. scan dir w = Some w'
           \<and> calls w' = calls w @ [CallPerformScan dir, CallScanAlbumDirectory dir]
                        @ handed
                        @ (if processFails env then [] else [CallAddProcessedAlbum dir])
           \<and> (processFails env \<longrightarrow> ledger w' = ledger w)
           \<and> (\<not> processFails env \<longrightarrow>
                ledger w' = fst (AddProcessedAlbum (ledger w) (insertFails env) dir))
           \<and> (\<not> queryFails env \<and> \<not> insertFails env \<longrightarrow>
                (dir \<in> set (ledger w') \<longleftrightarrow> \<not> processFails env))"
proof -
  have absent: "\<not> queryFails env \<Longrightarrow> dir \<notin> set (ledger w)"
    using assms(2) by (simp add: IsAlbumProcessed_def)
  from assms(1) show ?thesis
  proof (elim disjE conjE)
    assume "scan = performScan env" "handed = [CallProcessAlbum album musicLibDir]"
      and "waitForFilesStability dir stabilityCheckInterval stabilityQuietDuration
             stabilityMaxWait (startOverallWait env) (polls env) = Returned True"
    then show ?thesis
      using assms(2-4) absent
      by (simp add: performScan_def Let_def AddProcessedAlbum_def)
  next
    assume "scan = TaskScheduler_performScan cfg env"
      "handed = fetchCalls album @ [CallProcessAlbum (fetchAll env album) (MusicLibDir cfg)]"
      and "TaskScheduler_waitForFilesStability cfg dir (startOverallWait env) (polls env)
           = Returned True"
    then show ?thesis
      using assms(2-4) absent
      by (simp add: TaskScheduler_performScan_def Let_def AddProcessedAlbum_def)
  qed
qed

theorem ledger_marked_iff_success_witness:
  "(\<exists>w'. performScan (envOneDisc False False) dirA initWorld = Some w'
          \<and> ledger w' = [dirA]
          \<and> calls w' = [CallPerformScan dirA, CallScanAlbumDirectory dirA,
                        CallProcessAlbum albumOneDisc musicLibDir, CallAddProcessedAlbum dirA])
   \<and> (\<exists>w'. performScan (envOneDisc False True) dirA initWorld = Some w'
          \<and> ledger w' = []
          \<and> calls w' = [CallPerformScan dirA, CallScanAlbumDirectory dirA,
                        CallProcessAlbum albumOneDisc musicLibDir])"
proof -
  have gate: "performScan (envOneDisc False p) = performScan (envOneDisc False p)
      \<and> waitForFilesStability dirA stabilityCheckInterval stabilityQuietDuration
          stabilityMaxWait (startOverallWait (envOneDisc False p)) (polls (envOneDisc False p))
          = Returned True
      \<and> [CallProcessAlbum albumOneDisc musicLibDir] = [CallProcessAlbum albumOneDisc musicLibDir]
    \<or> performScan (envOneDisc False p) = TaskScheduler_performScan demoConfig (envOneDisc False p)
      \<and> TaskScheduler_waitForFilesStability demoConfig dirA
          (startOverallWait (envOneDisc False p)) (polls (envOneDisc False p)) = Returned True
      \<and> [CallProcessAlbum albumOneDisc musicLibDir]
          = fetchCalls albumOneDisc
            @ [CallProcessAlbum (fetchAll (envOneDisc False p) albumOneDisc)
                 (MusicLibDir demoConfig)]" for p
    using run_empty_main(1) by (simp add: oneDisc_env)
  have fresh: "\<not> fst (IsAlbumProcessed (ledger initWorld) (queryFails (envOneDisc False p)) dirA)"
    for p
    by (simp add: IsAlbumProcessed_def initWorld_def oneDisc_env)
  from ledger_marked_iff_success [OF gate fresh oneDisc_env(6) oneDisc_env(7), of False]
       ledger_marked_iff_success [OF gate fresh oneDisc_env(6) oneDisc_env(7), of True]
  show ?thesis
    by (auto simp: oneDisc_env AddProcessedAlbum_def initWorld_def)
qed

text \<open>
  Claim C10. When the query of the ledger fails in a scan, of either package, whose wait
  returned stable, \<open>IsAlbumProcessed\<close> answers "not processed" together with the error,
  and the scan goes on: it calls the assembler and, when the assembly returns an album
  with at least one disc, hands it to the processor and asks the ledger to mark the
  directory on success, as it does after a query that succeeded.
\<close>

theorem ledger_read_error_proceeds:
  assumes "scan = performScan env
             \<and> waitForFilesStability dir stabilityCheckInterval stabilityQuietDuration
                 stabilityMaxWait (startOverallWait env) (polls env) = Returned True
             \<and> handed = (\<lambda>album. [CallProcessAlbum album musicLibDir])
           \<or> scan = TaskScheduler_performScan cfg env
             \<and> TaskScheduler_waitForFilesStability cfg dir (startOverallWait env) (polls env)
                 = Returned True
             \<and> handed = (\<lambda>album. fetchCalls album
                            @ [CallProcessAlbum (fetchAll env album) (MusicLibDir cfg)])"
      and "queryFails env"
  shows "IsAlbumProcessed (ledger w) (queryFails env) dir = (False, True)
         \<and> (\<exists>w'. scan dir w = Some w'
               \<and> calls w' = calls w @ [CallPerformScan dir, CallScanAlbumDirectory dir]
                   @ (case scanAlbum env of
                        (Some album, False) \<Rightarrow>
                          if Discs album = [] then []
                          else handed album
                               @ (if processFails env then [] else [CallAddProcessedAlbum dir])
                      | _ \<Rightarrow> []))"
proof -
  have q: "IsAlbumProcessed (ledger w) (queryFails env) dir = (False, True)"
    using assms(2) by (simp add: IsAlbumProcessed_def)
  from assms(1) show ?thesis
  proof (elim disjE conjE)
    assume "scan = performScan env"
      "handed = (\<lambda>album. [CallProcessAlbum album musicLibDir])"
      and "waitForFilesStability dir stabilityCheckInterval stabilityQuietDuration
             stabilityMaxWait (startOverallWait env) (polls env) = Returned True"
    then show ?thesis
      using q by (cases "scanAlbum env")
        (auto simp: performScan_def Let_def split: option.split bool.split)
  next
    assume "scan = TaskScheduler_performScan cfg env"
      "handed = (\<lambda>album. fetchCalls album
                  @ [CallProcessAlbum (fetchAll env album) (MusicLibDir cfg)])"
      and "TaskScheduler_waitForFilesStability cfg dir (startOverallWait env) (polls env)
           = Returned True"
    then show ?thesis
      using q by (cases "scanAlbum env")
        (auto simp: TaskScheduler_performScan_def Let_def split: option.split bool.split)
  qed
qed

theorem ledger_read_error_proceeds_witness:
  "queryFails (envOneDisc True False)
   \<and> IsAlbumProcessed (ledger initWorld) (queryFails (envOneDisc True False)) dirA
       = (False, True)
   \<and> (\<exists>w'. TaskScheduler_performScan demoConfig (envOneDisc True False) dirA initWorld = Some w'
          \<and> calls w' = [CallPerformScan dirA, CallScanAlbumDirectory dirA]
                        @ fetchCalls albumOneDisc
                        @ [CallProcessAlbum (fetchAll (envOneDisc True False) albumOneDisc)
                             ''/app/music'',
                           CallAddProcessedAlbum dirA])"
proof -
  have gate: "TaskScheduler_performScan demoConfig (envOneDisc True False)
        = performScan (envOneDisc True False)
      \<and> waitForFilesStability dirA stabilityCheckInterval stabilityQuietDuration
          stabilityMaxWait (startOverallWait (envOneDisc True False))
          (polls (envOneDisc True False)) = Returned True
      \<and> (\<lambda>album. fetchCalls album
             @ [CallProcessAlbum (fetchAll (envOneDisc True False) album)
                  (MusicLibDir demoConfig)])
        = (\<lambda>album. [CallProcessAlbum album musicLibDir])
    \<or> TaskScheduler_performScan demoConfig (envOneDisc True False)
        = TaskScheduler_performScan demoConfig (envOneDisc True False)
      \<and> TaskScheduler_waitForFilesStability demoConfig dirA
          (startOverallWait (envOneDisc True False)) (polls (envOneDisc True False))
          = Returned True
      \<and> (\<lambda>album. fetchCalls album
             @ [CallProcessAlbum (fetchAll (envOneDisc True False) album)
                  (MusicLibDir demoConfig)])
        = (\<lambda>album. fetchCalls album
             @ [CallProcessAlbum (fetchAll (envOneDisc True False) album)
                  (MusicLibDir demoConfig)])"
    using run_empty_sched(1) by (simp add: oneDisc_env)
  have q: "queryFails (envOneDisc True False)"
    by (simp add: oneDisc_env)
  from ledger_read_error_proceeds [OF gate q, where w = initWorld] show ?thesis
    using q by (auto simp: oneDisc_env initWorld_def demoConfig_def)
qed


end
